theory Spec2Isabelle
  imports Complex_Main
begin

section \<open>Python strings\<close>

text \<open>
  A Python \<open>str\<close> is modelled as a \<^typ>\<open>string\<close>: a list of 8-bit characters, each standing
  for the code point of the same number (the Latin-1 range of Unicode). The functions below
  are the \<open>str\<close> methods the program calls, written out on that range.
\<close>

text \<open>\<open>s.startswith(p)\<close>\<close>

fun starts_with :: "string \<Rightarrow> string \<Rightarrow> bool" where
  "starts_with s [] = True"
| "starts_with [] (p # ps) = False"
| "starts_with (c # cs) (p # ps) = (c = p \<and> starts_with cs ps)"

text \<open>\<open>p in s\<close>: \<open>p\<close> occurs in \<open>s\<close> as a contiguous run of characters.\<close>

fun str_in :: "string \<Rightarrow> string \<Rightarrow> bool" where
  "str_in p [] = (p = [])"
| "str_in p (c # cs) = (starts_with (c # cs) p \<or> str_in p cs)"

text \<open>\<open>s.lower()\<close>: the code points below 256 that have a lower-case form are
  \<open>A\<close>..\<open>Z\<close> and \<open>0xC0\<close>..\<open>0xDE\<close> without the multiplication sign \<open>0xD7\<close>; the
  lower-case form is 32 further on.\<close>

definition lower_char :: "char \<Rightarrow> char" where
  "lower_char c =
     (let n = (of_char c :: nat)
      in if (65 \<le> n \<and> n \<le> 90) \<or> (192 \<le> n \<and> n \<le> 222 \<and> n \<noteq> 215)
         then char_of (n + 32) else c)"

definition lower :: "string \<Rightarrow> string" where
  "lower s = map lower_char s"

section \<open>Level extraction\<close>

definition get_opportunity_level :: "string \<Rightarrow> string" where
  "get_opportunity_level summary_text =
     (let summary_text_lower = lower summary_text
      in if str_in ''low opportunity'' summary_text_lower then ''Low Opportunity''
         else if str_in ''medium opportunity'' summary_text_lower then ''Medium Opportunity''
         else if str_in ''high opportunity'' summary_text_lower then ''High Opportunity''
         else if str_in ''no upsell opportunity indicated'' summary_text_lower
           then ''No Upsell Opportunity Indicated''
         else ''Unknown Opportunity'')"

text \<open>
  What the specification calls a case-insensitive occurrence of a phrase: some contiguous
  part of the text is the phrase up to the case of its letters. This is stated on the text
  itself, not on a lower-cased copy of it.
\<close>

definition occurs_ignoring_case :: "string \<Rightarrow> string \<Rightarrow> bool" where
  "occurs_ignoring_case phrase text =
     (\<exists>before part after. text = before @ part @ after \<and> lower part = lower phrase)"

text \<open>\<open>s.replace(old, new)\<close>: every occurrence of \<open>old\<close> is replaced, scanning from the
  left and continuing after each replaced occurrence. With an empty \<open>old\<close>, \<open>new\<close> is put
  before every character and at the end.\<close>

function str_replace :: "string \<Rightarrow> string \<Rightarrow> string \<Rightarrow> string" where
  "str_replace old new [] = (if old = [] then new else [])"
| "str_replace old new (c # cs) =
     (if old = [] then new @ c # str_replace old new cs
      else if starts_with (c # cs) old
        then new @ str_replace old new (drop (length old) (c # cs))
      else c # str_replace old new cs)"
  by pat_completeness auto
termination
  by (relation "measure (\<lambda>(old, new, s). length s)") auto

text \<open>\<open>sep.join(parts)\<close>\<close>

fun str_join :: "string \<Rightarrow> string list \<Rightarrow> string" where
  "str_join sep [] = []"
| "str_join sep [p] = p"
| "str_join sep (p # q # ps) = p @ sep @ str_join sep (q # ps)"

text \<open>\<open>s.strip()\<close>: white space is removed at both ends. The white-space code points
  below 256 are 9 to 13, 28 to 32, 133 and 160.\<close>

definition is_space :: "char \<Rightarrow> bool" where
  "is_space c =
     (let n = (of_char c :: nat)
      in (9 \<le> n \<and> n \<le> 13) \<or> (28 \<le> n \<and> n \<le> 32) \<or> n = 133 \<or> n = 160)"

definition strip :: "string \<Rightarrow> string" where
  "strip s = rev (dropWhile is_space (rev (dropWhile is_space s)))"

text \<open>The decimal digits of a number, as an f-string prints an \<open>int\<close> that is not
  negative.\<close>

definition digit_char :: "nat \<Rightarrow> char" where
  "digit_char d = ''0123456789'' ! (d mod 10)"

fun str_of_nat :: "nat \<Rightarrow> string" where
  "str_of_nat n =
     (if n < 10 then [digit_char n] else str_of_nat (n div 10) @ [digit_char (n mod 10)])"

declare str_of_nat.simps [simp del]

section \<open>Python lists\<close>

text \<open>\<open>xs[:n]\<close> for any integer \<open>n\<close>: a negative \<open>n\<close> counts from the end.\<close>

definition slice_to :: "int \<Rightarrow> 'a list \<Rightarrow> 'a list" where
  "slice_to n xs =
     (if 0 \<le> n then take (nat n) xs else take (nat (int (length xs) + n)) xs)"

text \<open>\<open>xs[i:j]\<close> for indices \<open>0 \<le> i \<le> j\<close>.\<close>

definition slice :: "nat \<Rightarrow> nat \<Rightarrow> 'a list \<Rightarrow> 'a list" where
  "slice i j xs = take (j - i) (drop i xs)"

text \<open>\<open>range(i, n, 3)\<close>\<close>

function range3 :: "nat \<Rightarrow> nat \<Rightarrow> nat list" where
  "range3 i n = (if i < n then i # range3 (i + 3) n else [])"
  by pat_completeness auto
termination
  by (relation "measure (\<lambda>(i, n). n - i)") auto

declare range3.simps [simp del]

section \<open>Exceptions, the operator's screen and the outside world\<close>

text \<open>
  A raised exception of class \<open>Exception\<close> (or a subclass) is a value carrying the text
  that \<open>str(e)\<close> gives. Both \<open>try\<close> blocks of the program catch \<open>Exception\<close>.
\<close>

datatype exn = Exception string

fun exn_str :: "exn \<Rightarrow> string" where
  "exn_str (Exception m) = m"

text \<open>What the program shows to the operator: \<open>st.error\<close>, \<open>st.warning\<close>, \<open>st.subheader\<close>.\<close>

datatype notice = St_error string | St_warning string | St_subheader string

text \<open>
  An entry of the news feed is a dictionary; the program reads the keys \<open>title\<close>,
  \<open>summary\<close>, \<open>link\<close> and \<open>source.href\<close>, each of which may be missing.
\<close>

record article =
  title :: "string option"
  summary :: "string option"
  link :: "string option"
  source_href :: "string option"

text \<open>
  The collaborators of the program, taken as parameters:
  \<^item> \<open>gn_search k query from to\<close> is what \<open>gn.search(query, from_=from, to_=to)\<close> does
    when it is the request number \<open>k\<close> (from 0) of one \<open>fetch_news\<close> call: it raises, or it
    returns a result that is empty or has no \<open>entries\<close> (\<open>None\<close>), or a result with its
    entries;
  \<^item> \<open>urlparse_netloc url\<close> is \<open>urlparse(url).netloc\<close>, which raises \<open>ValueError\<close> on
    some malformed links;
  \<^item> \<open>chat_completion k prompt\<close> is the text-generation request
    \<open>create(...).choices[0].message.content\<close> when \<open>k\<close> requests were made before it: it
    raises, or it gives the content, which may be \<open>None\<close>;
  \<^item> \<open>strftime_ymd d\<close> is \<open>d.strftime('%Y-%m-%d')\<close>.
\<close>

record 'd env =
  gn_search :: "nat \<Rightarrow> string \<Rightarrow> string \<Rightarrow> string \<Rightarrow> exn + article list option"
  urlparse_netloc :: "string \<Rightarrow> exn + string"
  chat_completion :: "nat \<Rightarrow> string \<Rightarrow> exn + string option"
  strftime_ymd :: "'d \<Rightarrow> string"

text \<open>
  The effects of the program: the queries sent to the news source, the prompts sent to the
  text-generation service, and the notices shown, each in order of time.
\<close>

record world =
  search_log :: "string list"
  chat_log :: "string list"
  notices :: "notice list"

section \<open>Fetching news\<close>

text \<open>\<open>article.get('source', {}).get('href', '')\<close>\<close>

definition source_link :: "article \<Rightarrow> string" where
  "source_link a = (case source_href a of None \<Rightarrow> [] | Some href \<Rightarrow> href)"

text \<open>\<open>urlparse(source_link).netloc.replace('www.', '')\<close>\<close>

definition article_domain :: "'d env \<Rightarrow> article \<Rightarrow> exn + string" where
  "article_domain env a =
     (case urlparse_netloc env (source_link a) of
        Inl e \<Rightarrow> Inl e
      | Inr netloc \<Rightarrow> Inr (str_replace ''www.'' [] netloc))"

text \<open>The loop over the entries of one result, appending the entries of allowed domains.\<close>

fun filter_entries ::
  "'d env \<Rightarrow> string list \<Rightarrow> article list \<Rightarrow> article list \<Rightarrow> exn + article list" where
  "filter_entries env allowed_domains [] articles_for_query = Inr articles_for_query"
| "filter_entries env allowed_domains (a # entries) articles_for_query =
     (case article_domain env a of
        Inl e \<Rightarrow> Inl e
      | Inr domain \<Rightarrow>
          filter_entries env allowed_domains entries
            (if list_ex (\<lambda>d. str_in d domain) allowed_domains
             then articles_for_query @ [a] else articles_for_query))"

text \<open>
  The body of \<open>if search_results and 'entries' in search_results\<close> up to the value of
  \<open>articles_for_query\<close>. \<open>if allowed_domains\<close> is false for \<open>None\<close> and for the empty
  list.
\<close>

definition articles_for_query ::
  "'d env \<Rightarrow> string list option \<Rightarrow> article list \<Rightarrow> exn + article list" where
  "articles_for_query env allowed_domains entries =
     (case allowed_domains of
        None \<Rightarrow> Inr entries
      | Some [] \<Rightarrow> Inr entries
      | Some (d # ds) \<Rightarrow>
          (case filter_entries env (d # ds) entries [] of
             Inl e \<Rightarrow> Inl e
           | Inr kept \<Rightarrow>
               Inr (if kept = []
                    then (case entries of [] \<Rightarrow> kept | first # _ \<Rightarrow> kept @ [first])
                    else kept)))"

text \<open>The combined query of every turn of the loop
  \<open>for i in range(0, len(queries), 3)\<close>, in order.\<close>

definition combined_queries :: "string list \<Rightarrow> string list" where
  "combined_queries queries =
     map (\<lambda>i. str_join '' OR '' (slice i (i + 3) queries)) (range3 0 (length queries))"

text \<open>
  The loop of \<open>fetch_news\<close> from its turn number \<open>k\<close> on, over the combined queries still to
  send. An exception leaves the loop at once; the effects made before it stay.
\<close>

fun fetch_loop ::
  "'d env \<Rightarrow> string \<Rightarrow> string \<Rightarrow> int \<Rightarrow> string list option \<Rightarrow> nat \<Rightarrow> string list \<Rightarrow>
     article list \<Rightarrow> world \<Rightarrow> (exn + article list) \<times> world" where
  "fetch_loop env from_date_str to_date_str max_articles allowed_domains k [] results w =
     (Inr results, w)"
| "fetch_loop env from_date_str to_date_str max_articles allowed_domains k
       (combined_query # rest) results w =
     (let w1 = w\<lparr>search_log := search_log w @ [combined_query]\<rparr>
      in case gn_search env k combined_query from_date_str to_date_str of
           Inl e \<Rightarrow> (Inl e, w1)
         | Inr None \<Rightarrow>
             fetch_loop env from_date_str to_date_str max_articles allowed_domains (Suc k) rest
               results
               (w1\<lparr>notices := notices w1 @
                  [St_warning (''No results or 'entries' not found for query '' @ [CHR 0x27]
                     @ combined_query @ [CHR 0x27])]\<rparr>)
         | Inr (Some entries) \<Rightarrow>
             (case articles_for_query env allowed_domains entries of
                Inl e \<Rightarrow> (Inl e, w1)
              | Inr kept \<Rightarrow>
                  fetch_loop env from_date_str to_date_str max_articles allowed_domains (Suc k)
                    rest (results @ slice_to max_articles kept) w1))"

text \<open>\<open>if queries is None: queries = [company_name]\<close>\<close>

definition queries_or_default :: "string \<Rightarrow> string list option \<Rightarrow> string list" where
  "queries_or_default company_name queries =
     (case queries of None \<Rightarrow> [company_name] | Some qs \<Rightarrow> qs)"

definition fetch_news ::
  "'d env \<Rightarrow> string \<Rightarrow> 'd \<Rightarrow> 'd \<Rightarrow> int \<Rightarrow> string list option \<Rightarrow> string list option \<Rightarrow>
     world \<Rightarrow> article list option \<times> world" where
  "fetch_news env company_name from_date to_date max_articles queries allowed_domains w =
     (let queries = queries_or_default company_name queries
      in case fetch_loop env (strftime_ymd env from_date) (strftime_ymd env to_date)
                max_articles allowed_domains 0 (combined_queries queries) [] w of
           (Inl e, w') \<Rightarrow>
             (None, w'\<lparr>notices := notices w' @
                [St_error (''Error fetching news for '' @ company_name @ '': '' @ exn_str e)]\<rparr>)
         | (Inr results, w') \<Rightarrow> (Some (slice_to max_articles results), w'))"

section \<open>Classifying articles\<close>

text \<open>
  A prompt template has one replacement field and no other brace, so \<open>template.format(...)\<close>
  puts the text of that field between the text before the field and the text after it; a
  template is that pair of texts. The template \<open>"{provided_text}"\<close> is the pair of two
  empty texts.
\<close>

type_synonym template = "string \<times> string"

fun str_format :: "template \<Rightarrow> string \<Rightarrow> string" where
  "str_format (before, after) field_text = before @ field_text @ after"

definition PROMPT_INDIVIDUAL_ANALYSIS :: template where
  \<open>PROMPT_INDIVIDUAL_ANALYSIS =
    (
     ''Carefully analyze the following news article text for information directly indicating potential **upselling opportunities** specifically for an **employee benefits company in India**. Focus only on details that would suggest a company is growing, investing in employees, or has increased financial capacity to enhance its employee benefits programs.\<newline>'' @
     ''\<newline>'' @
     ''**Text:**\<newline>'',

     ''\<newline>'' @
     ''\<newline>'' @
     ''Based on your analysis and using the provided categories below, determine the upselling opportunity level and the specific reason(s).\<newline>'' @
     ''\<newline>'' @
     ''1.  **Opportunity Level (First Line):** State the opportunity level as one of the following:\<newline>'' @
     ''    * "High Opportunity"\<newline>'' @
     ''    * "Medium Opportunity"\<newline>'' @
     ''    * "Low Opportunity"\<newline>'' @
     ''    * "No Upsell Opportunity Indicated" (If no relevant information is found regarding upselling for an employee benefits company)\<newline>'' @
     ''\<newline>'' @
     ''2.  **Reason(s) for Opportunity (Second Line):** If an opportunity is indicated, explain the major reason(s) concisely, referencing the relevant category (e.g., "Reason: [Category Name] - Brief explanation."). If there are multiple relevant reasons, list them clearly.\<newline>'' @
     ''\<newline>'' @
     ''3.  **2-Line Summary of Analysis (Third and Fourth Lines):** Provide a brief, overall summary of the article's relevance to upselling for an employee benefits company, condensing the key findings into exactly two lines. If no upselling opportunity is indicated, summarize why the article is not relevant.\<newline>'' @
     ''\<newline>'' @
     ''**Categories for Reasons:**\<newline>'' @
     ''I.  **Financial Growth & Stability:** (Record revenue, profit growth, funding rounds, IPOs, strong financial performance, increased valuation, successful cost optimization leading to increased budgets)\<newline>'' @
     ''II. **Workforce Expansion & Hiring:** (Mass hiring, significant headcount growth, talent acquisition drives, campus recruitment, leadership hiring, expansion into new markets requiring more employees)\<newline>'' @
     ''III. **Employee-Centric Initiatives:** (New employee wellness programs, enhanced mental health support, focus on employee experience, DEI initiatives, improved workplace culture, employee recognition programs)\<newline>'' @
     ''IV. **Strategic Investments & Expansion:** (Business expansion, new product launches, digital transformation, acquisition of new companies, investments in HR tech, major strategic partnerships)\<newline>'' @
     ''V.  **Market Leadership & Employer Branding:** (Awards for best workplace, "Great Place to Work" recognition, strong employer branding, high employee satisfaction/retention rates)\<newline>'' @
     ''VI. **Benefits Strategy Evolution:** (Overhaul of benefits, digitization of HR/benefits, adoption of new benefits platforms, focus on flexible/hybrid work benefits, efforts to optimize benefits structure)\<newline>'' @
     ''VII. **Compliance & Regulatory Readiness:** (Proactive measures for new labor laws, tax benefits for employees, social security code adherence, ensuring comprehensive benefits compliance)\<newline>'' @
     ''\<newline>'' @
     ''**Example Output Format (for High/Medium/Low Opportunity):**\<newline>'' @
     ''High Opportunity\<newline>'' @
     ''Reason: Financial Growth & Stability - Company announced record profits and significant investment plans, suggesting increased budget for employee benefits.\<newline>'' @
     ''Summary: The company's robust financial performance indicates a strong capacity and potential willingness to invest more in comprehensive employee benefits. This presents a prime opportunity for enhanced offerings.\<newline>'' @
     ''\<newline>'' @
     ''**Example Output Format (for No Opportunity):**\<newline>'' @
     ''No Upsell Opportunity Indicated\<newline>'' @
     ''Summary: The article discusses general industry trends not specific to the company's growth or employee-related initiatives. It provides no indication of changes relevant to enhanced employee benefits or potential upselling.\<newline>'')\<close>

definition PROMPT_COMBINED_ANALYSIS :: template where
  \<open>PROMPT_COMBINED_ANALYSIS =
    (
     ''Given the individual analyses of news articles related to a company and potential client upselling opportunities, provide an overall summary (at most 4 lines).\<newline>'' @
     ''\<newline>'' @
     ''**Individual Article Analyses:**\<newline>'',

     ''\<newline>'' @
     ''\<newline>'' @
     ''In the first line, state the overall opportunity level for upselling for the company (e.g., "Overall High Opportunity," "Overall Medium Opportunity," "Overall Low Opportunity," "Overall No Upsell Opportunity Indicated"). In the subsequent lines, summarize the major reasons for this overall opportunity, drawing from the categories mentioned in the individual analyses. Be concise and focus on the most impactful reasons across all articles. If no relevant information is found across all articles, state "Overall No Upsell Opportunity Indicated."\<newline>'')\<close>

definition provided_text_only :: template where
  "provided_text_only = ([], [])"

text \<open>
  \<open>analyze_text\<close>, without its cache. The request is logged, then it raises or answers.
  An answer that is \<open>None\<close> or empty is replaced by the text of the f-string
  \<open>f"Unexpected response: {output}"\<close>.
\<close>

definition analyze_text ::
  "'d env \<Rightarrow> string \<Rightarrow> string \<Rightarrow> template \<Rightarrow> world \<Rightarrow> string \<times> world" where
  "analyze_text env company_name provided_text prompt_template w =
     (let prompt = str_format prompt_template provided_text;
          w1 = w\<lparr>chat_log := chat_log w @ [prompt]\<rparr>
      in case chat_completion env (length (chat_log w)) prompt of
           Inl e \<Rightarrow>
             (''Analysis failed due to AI service error.'',
              w1\<lparr>notices := notices w1 @
                [St_error (''Error querying Together AI for '' @ company_name @ '': ''
                   @ exn_str e)]\<rparr>)
         | Inr None \<Rightarrow> (''Unexpected response: None'', w1)
         | Inr (Some output) \<Rightarrow>
             (if output \<noteq> [] then output else ''Unexpected response: '' @ output, w1))"

text \<open>\<open>article.get('summary') or article.get('title') or ""\<close>\<close>

definition process_article :: "article \<Rightarrow> string" where
  "process_article a =
     (case summary a of
        Some s \<Rightarrow> if s \<noteq> [] then s
                  else (case title a of Some t \<Rightarrow> t | None \<Rightarrow> [])
      | None \<Rightarrow> (case title a of Some t \<Rightarrow> t | None \<Rightarrow> []))"

text \<open>An element of \<open>individual_analyses\<close> (the keys \<open>title\<close>, \<open>url\<close>, \<open>analysis\<close>) and the
  dictionary that \<open>analyze_news\<close> returns.\<close>

record analysis_entry =
  entry_title :: string
  entry_url :: string
  entry_analysis :: string

record report =
  individual_analyses :: "analysis_entry list"
  overall_summary :: string

definition no_text_analysis :: string where
  "no_text_analysis = ''No Upsell Opportunity Indicated (No text in article summary/title).''"

text \<open>
  One turn of the loop \<open>for i, article in enumerate(all_articles)\<close>, on the list of
  analyses, the text collected for the second request, and the world. The program calls
  \<open>analyze_text\<close> through its cache; the turn is modelled for a call that finds no live
  entry, which makes the request. On a hit the program makes no request and takes the
  stored answer, so that the requests of the model are the most that the program makes.
\<close>

definition analyze_article ::
  "'d env \<Rightarrow> string \<Rightarrow> nat \<Rightarrow> article \<Rightarrow> analysis_entry list \<times> string \<times> world \<Rightarrow>
     analysis_entry list \<times> string \<times> world" where
  "analyze_article env company_name i a st =
     (case st of (individual_analyses_list, combined_analysis_text_for_model, w) \<Rightarrow>
      let article_text = process_article a;
          article_url = (case link a of None \<Rightarrow> ''No URL available'' | Some u \<Rightarrow> u);
          article_title =
            (case title a of None \<Rightarrow> ''Article '' @ str_of_nat (i + 1) | Some t \<Rightarrow> t)
      in if article_text \<noteq> [] then
           (case analyze_text env company_name article_text PROMPT_INDIVIDUAL_ANALYSIS w of
              (analysis_result, w') \<Rightarrow>
                (individual_analyses_list @
                   [\<lparr>entry_title = article_title, entry_url = article_url,
                     entry_analysis = analysis_result\<rparr>],
                 combined_analysis_text_for_model @ ''Article '' @ str_of_nat (i + 1)
                   @ '' Analysis:\<newline>'' @ analysis_result @ ''\<newline>\<newline>'',
                 w'))
         else
           (individual_analyses_list @
              [\<lparr>entry_title = article_title, entry_url = article_url,
                entry_analysis = no_text_analysis\<rparr>],
            combined_analysis_text_for_model @ ''Article '' @ str_of_nat (i + 1)
              @ '' Analysis:\<newline>'' @ no_text_analysis @ ''\<newline>\<newline>'',
            w))"

fun analyze_loop ::
  "'d env \<Rightarrow> string \<Rightarrow> nat \<Rightarrow> article list \<Rightarrow> analysis_entry list \<times> string \<times> world \<Rightarrow>
     analysis_entry list \<times> string \<times> world" where
  "analyze_loop env company_name i [] st = st"
| "analyze_loop env company_name i (a # articles) st =
     analyze_loop env company_name (Suc i) articles (analyze_article env company_name i a st)"

definition no_news_report :: report where
  "no_news_report =
     \<lparr>individual_analyses = [],
      overall_summary = ''No relevant news articles found for analysis.''\<rparr>"

text \<open>
  \<open>analyze_news\<close>. Its calls of \<open>fetch_news\<close> and of \<open>analyze_text\<close> go through the cache
  in the program; they are modelled as calls that find no live entry, as above.
\<close>

definition analyze_news ::
  "'d env \<Rightarrow> string \<Rightarrow> 'd \<Rightarrow> 'd \<Rightarrow> int \<Rightarrow> string list option \<Rightarrow> string list option \<Rightarrow>
     world \<Rightarrow> report \<times> world" where
  "analyze_news env company_name from_date to_date max_articles queries allowed_domains w =
     (let w0 = w\<lparr>notices := notices w @
                 [St_subheader (''Analyzing News for **'' @ company_name @ ''**'')]\<rparr>
      in case fetch_news env company_name from_date to_date max_articles queries
                allowed_domains w0 of
           (None, w1) \<Rightarrow> (no_news_report, w1)
         | (Some [], w1) \<Rightarrow> (no_news_report, w1)
         | (Some (a # articles), w1) \<Rightarrow>
             (case analyze_loop env company_name 0 (a # articles) ([], [], w1) of
                (individual_analyses_list, combined_analysis_text_for_model, w2) \<Rightarrow>
                  if individual_analyses_list \<noteq> [] then
                    (case analyze_text env company_name
                            (str_format PROMPT_COMBINED_ANALYSIS
                               (strip combined_analysis_text_for_model))
                            provided_text_only w2 of
                       (overall_summary_result, w3) \<Rightarrow>
                         (\<lparr>individual_analyses = individual_analyses_list,
                           overall_summary = overall_summary_result\<rparr>, w3))
                  else
                    (\<lparr>individual_analyses = individual_analyses_list,
                      overall_summary = ''Overall No Upsell Opportunity Indicated.''\<rparr>, w2)))"

section \<open>Notions used to state the properties\<close>

text \<open>
  Turn \<open>k\<close> of the loop of \<open>fetch_news\<close>, with combined query \<open>q\<close>, raises when the
  request raises or when the filtering of its entries raises (parsing a source link).
\<close>

definition batch_raises ::
  "'d env \<Rightarrow> string \<Rightarrow> string \<Rightarrow> string list option \<Rightarrow> nat \<Rightarrow> string \<Rightarrow> bool" where
  "batch_raises env from_date_str to_date_str allowed_domains k q =
     (case gn_search env k q from_date_str to_date_str of
        Inl e \<Rightarrow> True
      | Inr None \<Rightarrow> False
      | Inr (Some entries) \<Rightarrow>
          (case articles_for_query env allowed_domains entries of
             Inl e \<Rightarrow> True | Inr kept \<Rightarrow> False))"

text \<open>The articles kept from turn \<open>k\<close>, before any truncation: those of
  \<open>articles_for_query\<close>, and none when the result has no entries.\<close>

definition batch_kept ::
  "'d env \<Rightarrow> string \<Rightarrow> string \<Rightarrow> string list option \<Rightarrow> nat \<Rightarrow> string \<Rightarrow> article list" where
  "batch_kept env from_date_str to_date_str allowed_domains k q =
     (case gn_search env k q from_date_str to_date_str of
        Inl e \<Rightarrow> []
      | Inr None \<Rightarrow> []
      | Inr (Some entries) \<Rightarrow>
          (case articles_for_query env allowed_domains entries of
             Inl e \<Rightarrow> [] | Inr kept \<Rightarrow> kept))"

text \<open>The kept articles of every batch of one \<open>fetch_news\<close> call, in batch order.\<close>

definition kept_batches ::
  "'d env \<Rightarrow> string \<Rightarrow> 'd \<Rightarrow> 'd \<Rightarrow> string list option \<Rightarrow> string list option \<Rightarrow>
     article list list" where
  "kept_batches env company_name from_date to_date queries allowed_domains =
     map (\<lambda>(k, q). batch_kept env (strftime_ymd env from_date) (strftime_ymd env to_date)
                      allowed_domains k q)
       (enumerate 0 (combined_queries (queries_or_default company_name queries)))"

text \<open>
  The domain filter in the words of the specification, for a given way \<open>derive\<close> of
  deriving the domain from the network location \<open>netloc a\<close> of the source link of an
  article: with no allow-list or an empty one, every article passes; otherwise an article
  is kept when some allow-listed domain occurs in its derived domain, and if none is kept
  the first article of the batch is the result.
\<close>

definition domain_allowed :: "string list \<Rightarrow> string \<Rightarrow> bool" where
  "domain_allowed allowed domain = (\<exists>d \<in> set allowed. \<exists>u v. domain = u @ d @ v)"

definition domain_filter_spec ::
  "(string \<Rightarrow> string) \<Rightarrow> (article \<Rightarrow> string) \<Rightarrow> string list option \<Rightarrow> article list \<Rightarrow>
     article list" where
  "domain_filter_spec derive netloc allowed_domains entries =
     (case allowed_domains of
        None \<Rightarrow> entries
      | Some allowed \<Rightarrow>
          if allowed = [] then entries
          else let kept = filter (\<lambda>a. domain_allowed allowed (derive (netloc a))) entries
               in if kept = [] then take 1 entries else kept)"

text \<open>The derivation of the specification: a leading \<open>www.\<close> is stripped.\<close>

definition strip_leading_www :: "string \<Rightarrow> string" where
  "strip_leading_www netloc = (if starts_with netloc ''www.'' then drop 4 netloc else netloc)"

section \<open>Collaborators and articles of the examples\<close>

text \<open>
  Concrete inputs on which the theorems are instantiated: a world in which nothing has
  happened yet; the values of \<open>urlparse(url).netloc\<close> on the three links that the
  examples use (the third has an opening bracket without its closing one, for which
  \<open>urlparse\<close> raises \<open>ValueError\<close>; every other link of the examples is empty, with an
  empty network location); collaborators whose answers depend on the number of the request
  only; and articles with a title and a source link.
\<close>

definition empty_world :: world where
  "empty_world = \<lparr>search_log = [], chat_log = [], notices = []\<rparr>"

definition example_netloc :: "string \<Rightarrow> exn + string" where
  "example_netloc url =
     (if url = ''https://awww.com/story'' then Inr ''awww.com''
      else if url = ''https://example.com/news'' then Inr ''example.com''
      else if url = ''http://[example.com/news'' then Inl (Exception ''Invalid IPv6 URL'')
      else Inr [])"

definition example_env ::
  "(nat \<Rightarrow> exn + article list option) \<Rightarrow> (nat \<Rightarrow> exn + string option) \<Rightarrow> unit env" where
  "example_env search chat =
     \<lparr>gn_search = (\<lambda>k query from_date_str to_date_str. search k),
      urlparse_netloc = example_netloc,
      chat_completion = (\<lambda>k prompt. chat k),
      strftime_ymd = (\<lambda>d. ''2024-01-01'')\<rparr>"

definition example_article :: "string \<Rightarrow> string \<Rightarrow> article" where
  "example_article t href =
     \<lparr>title = Some t, summary = None, link = None, source_href = Some href\<rparr>"

definition example_article_netloc :: "article \<Rightarrow> string" where
  "example_article_netloc a =
     (case example_netloc (source_link a) of Inl e \<Rightarrow> [] | Inr netloc \<Rightarrow> netloc)"

section \<open>The result cache\<close>

text \<open>Modelled from the spec: the Result Cache, that is the decorator
  \<open>st.cache_data(ttl=3600)\<close> on \<open>analyze_text\<close> and \<open>fetch_news\<close>, whose code is the framework's
  and not among the sources. The specification (4.4) gives its contract
  \<open>memoize(operationKey, args, ttlSeconds, compute)\<close>: the key is made of the operation and
  its arguments; if a live (not expired) entry exists it is returned without invoking
  \<open>compute\<close>; otherwise \<open>compute\<close> is invoked, and its result is stored with the current
  timestamp and returned. An entry is expired when it is older than the time-to-live
  (3, Cache Entry). Time is an injected clock in seconds (9); the cache counts the
  invocations of \<open>compute\<close>. Each operation has a cache of its own, so that the key below is
  the tuple of the arguments. The argument \<open>_together_client\<close> is not part of the key of
  \<open>analyze_text\<close>.\<close>

record ('k, 'v) result_cache =
  cache_entries :: "'k \<rightharpoonup> ('v \<times> nat)"
  computations :: nat

text \<open>Modelled from the spec: the cache of a process that has just started; it has no
  entry (the cache does not persist across restarts).\<close>

definition empty_cache :: "('k, 'v) result_cache" where
  "empty_cache = \<lparr>cache_entries = Map.empty, computations = 0\<rparr>"

text \<open>Modelled from the spec: the miss branch of the cache, which is not among the
  sources: invoke \<open>compute\<close>, store the result with the current timestamp, return it.\<close>

definition compute_and_store ::
  "nat \<Rightarrow> 'k \<Rightarrow> ('s \<Rightarrow> 'v \<times> 's) \<Rightarrow> ('k, 'v) result_cache \<times> 's \<Rightarrow>
     'v \<times> ('k, 'v) result_cache \<times> 's" where
  "compute_and_store now key compute st =
     (case st of (cache, s) \<Rightarrow>
        (case compute s of (v, s') \<Rightarrow>
           (v, \<lparr>cache_entries = (cache_entries cache)(key \<mapsto> (v, now)),
                computations = computations cache + 1\<rparr>, s')))"

text \<open>Modelled from the spec: \<open>memoize\<close>, which is not among the sources: a live entry
  is returned without invoking \<open>compute\<close>; an entry older than the time-to-live is
  bypassed.\<close>

definition memoize ::
  "nat \<Rightarrow> nat \<Rightarrow> 'k \<Rightarrow> ('s \<Rightarrow> 'v \<times> 's) \<Rightarrow> ('k, 'v) result_cache \<times> 's \<Rightarrow>
     'v \<times> ('k, 'v) result_cache \<times> 's" where
  "memoize ttl_seconds now key compute st =
     (case cache_entries (fst st) key of
        None \<Rightarrow> compute_and_store now key compute st
      | Some (v, inserted) \<Rightarrow>
          if now - inserted \<le> ttl_seconds then (v, fst st, snd st)
          else compute_and_store now key compute st)"

text \<open>The two decorated operations, called at the time \<open>now\<close>; 3600 is the \<open>ttl\<close> written
  in the source.\<close>

definition analyze_text_cached ::
  "'d env \<Rightarrow> nat \<Rightarrow> string \<Rightarrow> string \<Rightarrow> template \<Rightarrow>
     (string \<times> string \<times> template, string) result_cache \<times> world \<Rightarrow>
     string \<times> (string \<times> string \<times> template, string) result_cache \<times> world" where
  "analyze_text_cached env now company_name provided_text prompt_template =
     memoize 3600 now (company_name, provided_text, prompt_template)
       (analyze_text env company_name provided_text prompt_template)"

definition fetch_news_cached ::
  "'d env \<Rightarrow> nat \<Rightarrow> string \<Rightarrow> 'd \<Rightarrow> 'd \<Rightarrow> int \<Rightarrow> string list option \<Rightarrow> string list option \<Rightarrow>
     (string \<times> 'd \<times> 'd \<times> int \<times> string list option \<times> string list option,
        article list option) result_cache \<times> world \<Rightarrow>
     article list option \<times>
     (string \<times> 'd \<times> 'd \<times> int \<times> string list option \<times> string list option,
        article list option) result_cache \<times> world" where
  "fetch_news_cached env now company_name from_date to_date max_articles queries
       allowed_domains =
     memoize 3600 now
       (company_name, from_date, to_date, max_articles, queries, allowed_domains)
       (fetch_news env company_name from_date to_date max_articles queries allowed_domains)"

section \<open>Facts about strings\<close>

lemma starts_with_iff: "starts_with s p \<longleftrightarrow> (\<exists>r. s = p @ r)"
  by (induction s p rule: starts_with.induct) auto

lemma str_in_iff: "str_in p s \<longleftrightarrow> (\<exists>u v. s = u @ p @ v)"
proof (induction s)
  case Nil
  then show ?case by auto
next
  case (Cons c cs)
  show ?case
  proof
    assume "str_in p (c # cs)"
    then consider "starts_with (c # cs) p" | "str_in p cs" by auto
    then show "\<exists>u v. c # cs = u @ p @ v"
    proof cases
      case 1
      then obtain r where "c # cs = p @ r" unfolding starts_with_iff by blast
      then have "c # cs = [] @ p @ r" by simp
      then show ?thesis by blast
    next
      case 2
      then obtain u v where "cs = u @ p @ v" using Cons.IH by blast
      then have "c # cs = (c # u) @ p @ v" by simp
      then show ?thesis by blast
    qed
  next
    assume "\<exists>u v. c # cs = u @ p @ v"
    then obtain u v where uv: "c # cs = u @ p @ v" by blast
    show "str_in p (c # cs)"
    proof (cases u)
      case Nil
      with uv have "c # cs = p @ v" by simp
      then have "starts_with (c # cs) p" unfolding starts_with_iff by blast
      then show ?thesis by simp
    next
      case (Cons a u')
      with uv have "cs = u' @ p @ v" by simp
      then have "str_in p cs" using Cons.IH by blast
      then show ?thesis by simp
    qed
  qed
qed

lemma lower_append: "lower (a @ b) = lower a @ lower b"
  by (simp add: lower_def)

lemma lower_split:
  "lower s = u @ p @ v \<Longrightarrow> \<exists>a b c. s = a @ b @ c \<and> lower b = p"
proof -
  assume h: "lower s = u @ p @ v"
  let ?a = "take (length u) s"
  let ?b = "take (length p) (drop (length u) s)"
  let ?c = "drop (length p) (drop (length u) s)"
  have s: "s = ?a @ ?b @ ?c" by (simp del: drop_drop)
  have "lower ?b = take (length p) (drop (length u) (lower s))"
    by (simp add: lower_def take_map drop_map)
  also have "\<dots> = p" using h by simp
  finally show ?thesis using s by blast
qed

lemma str_in_lower_iff:
  assumes p: "lower p = p"
  shows "str_in p (lower s) \<longleftrightarrow> occurs_ignoring_case p s"
proof
  assume "str_in p (lower s)"
  then obtain u v where "lower s = u @ p @ v" unfolding str_in_iff by blast
  from lower_split [OF this] obtain a b c where abc: "s = a @ b @ c" and b: "lower b = p"
    by blast
  from b p have "lower b = lower p" by simp
  with abc show "occurs_ignoring_case p s"
    unfolding occurs_ignoring_case_def by (intro exI conjI)
next
  assume "occurs_ignoring_case p s"
  then obtain a b c where abc: "s = a @ b @ c" and b: "lower b = lower p"
    unfolding occurs_ignoring_case_def by (elim exE conjE)
  from abc b p have "lower s = lower a @ p @ lower c" by (simp add: lower_append)
  then show "str_in p (lower s)" unfolding str_in_iff by (intro exI)
qed

section \<open>Level extraction is total, ordered and idempotent\<close>

lemma lower_phrases:
  "lower ''low opportunity'' = ''low opportunity''"
  "lower ''medium opportunity'' = ''medium opportunity''"
  "lower ''high opportunity'' = ''high opportunity''"
  "lower ''no upsell opportunity indicated'' = ''no upsell opportunity indicated''"
  by code_simp+

lemma level_of_level:
  "get_opportunity_level ''Low Opportunity'' = ''Low Opportunity''"
  "get_opportunity_level ''Medium Opportunity'' = ''Medium Opportunity''"
  "get_opportunity_level ''High Opportunity'' = ''High Opportunity''"
  "get_opportunity_level ''No Upsell Opportunity Indicated'' = ''No Upsell Opportunity Indicated''"
  "get_opportunity_level ''Unknown Opportunity'' = ''Unknown Opportunity''"
  by code_simp+

lemma get_opportunity_level_cases:
  "get_opportunity_level s =
     (if occurs_ignoring_case ''low opportunity'' s then ''Low Opportunity''
      else if occurs_ignoring_case ''medium opportunity'' s then ''Medium Opportunity''
      else if occurs_ignoring_case ''high opportunity'' s then ''High Opportunity''
      else if occurs_ignoring_case ''no upsell opportunity indicated'' s
        then ''No Upsell Opportunity Indicated''
      else ''Unknown Opportunity'')"
  unfolding get_opportunity_level_def Let_def
  by (simp only: str_in_lower_iff [OF lower_phrases(1)] str_in_lower_iff [OF lower_phrases(2)]
        str_in_lower_iff [OF lower_phrases(3)] str_in_lower_iff [OF lower_phrases(4)])

text \<open>
  Claim C3. \<open>get_opportunity_level\<close> returns, for every text, one of the five level
  names. The name is decided by which of the four phrases occur in the text, letter case
  ignored, in the order low, medium, high, no-upsell: each level is returned exactly when
  its phrase occurs and none of the phrases before it does, and the unknown level exactly
  when no phrase occurs. Applying the function to its own result gives the same result.
\<close>

theorem get_opportunity_level_total_ordered_idempotent:
  "get_opportunity_level s \<in> {''Low Opportunity'', ''Medium Opportunity'', ''High Opportunity'',
        ''No Upsell Opportunity Indicated'', ''Unknown Opportunity''}
   \<and> (get_opportunity_level s = ''Low Opportunity'' \<longleftrightarrow>
          occurs_ignoring_case ''low opportunity'' s)
   \<and> (get_opportunity_level s = ''Medium Opportunity'' \<longleftrightarrow>
          \<not> occurs_ignoring_case ''low opportunity'' s
          \<and> occurs_ignoring_case ''medium opportunity'' s)
   \<and> (get_opportunity_level s = ''High Opportunity'' \<longleftrightarrow>
          \<not> occurs_ignoring_case ''low opportunity'' s
          \<and> \<not> occurs_ignoring_case ''medium opportunity'' s
          \<and> occurs_ignoring_case ''high opportunity'' s)
   \<and> (get_opportunity_level s = ''No Upsell Opportunity Indicated'' \<longleftrightarrow>
          \<not> occurs_ignoring_case ''low opportunity'' s
          \<and> \<not> occurs_ignoring_case ''medium opportunity'' s
          \<and> \<not> occurs_ignoring_case ''high opportunity'' s
          \<and> occurs_ignoring_case ''no upsell opportunity indicated'' s)
   \<and> (get_opportunity_level s = ''Unknown Opportunity'' \<longleftrightarrow>
          \<not> occurs_ignoring_case ''low opportunity'' s
          \<and> \<not> occurs_ignoring_case ''medium opportunity'' s
          \<and> \<not> occurs_ignoring_case ''high opportunity'' s
          \<and> \<not> occurs_ignoring_case ''no upsell opportunity indicated'' s)
   \<and> get_opportunity_level (get_opportunity_level s) = get_opportunity_level s"
proof -
  define L where "L = occurs_ignoring_case ''low opportunity'' s"
  define M where "M = occurs_ignoring_case ''medium opportunity'' s"
  define H where "H = occurs_ignoring_case ''high opportunity'' s"
  define N where "N = occurs_ignoring_case ''no upsell opportunity indicated'' s"
  have v: "get_opportunity_level s =
      (if L then ''Low Opportunity'' else if M then ''Medium Opportunity''
       else if H then ''High Opportunity'' else if N then ''No Upsell Opportunity Indicated''
       else ''Unknown Opportunity'')"
    unfolding L_def M_def H_def N_def by (rule get_opportunity_level_cases)
  have mem: "get_opportunity_level s \<in> {''Low Opportunity'', ''Medium Opportunity'',
      ''High Opportunity'', ''No Upsell Opportunity Indicated'', ''Unknown Opportunity''}"
    unfolding v by simp
  have idem: "get_opportunity_level (get_opportunity_level s) = get_opportunity_level s"
    using mem level_of_level by auto
  have low: "get_opportunity_level s = ''Low Opportunity'' \<longleftrightarrow> L"
    unfolding v by simp
  have med: "get_opportunity_level s = ''Medium Opportunity'' \<longleftrightarrow> \<not> L \<and> M"
    unfolding v by simp
  have high: "get_opportunity_level s = ''High Opportunity'' \<longleftrightarrow> \<not> L \<and> \<not> M \<and> H"
    unfolding v by simp
  have no: "get_opportunity_level s = ''No Upsell Opportunity Indicated'' \<longleftrightarrow>
      \<not> L \<and> \<not> M \<and> \<not> H \<and> N"
    unfolding v by simp
  have unk: "get_opportunity_level s = ''Unknown Opportunity'' \<longleftrightarrow>
      \<not> L \<and> \<not> M \<and> \<not> H \<and> \<not> N"
    unfolding v by simp
  show ?thesis
    using mem idem low med high no unk unfolding L_def M_def H_def N_def by blast
qed

theorem get_opportunity_level_witness:
  "occurs_ignoring_case ''low opportunity'' ''Overall HIGH opportunity, not Low Opportunity''
   \<and> get_opportunity_level (get_opportunity_level ''Overall HIGH opportunity, not Low Opportunity'')
       = ''Low Opportunity''"
proof -
  let ?t = "''Overall HIGH opportunity, not Low Opportunity''"
  have e: "get_opportunity_level ?t = ''Low Opportunity''"
    by code_simp
  note T = get_opportunity_level_total_ordered_idempotent [of ?t]
  from T have "get_opportunity_level ?t = ''Low Opportunity'' \<longleftrightarrow>
      occurs_ignoring_case ''low opportunity'' ?t"
    by blast
  with e have o: "occurs_ignoring_case ''low opportunity'' ?t" by blast
  from T have "get_opportunity_level (get_opportunity_level ?t) = get_opportunity_level ?t"
    by blast
  with e have "get_opportunity_level (get_opportunity_level ?t) = ''Low Opportunity''"
    by (simp only:)
  with o show ?thesis by blast
qed

section \<open>Facts about the query batches\<close>







section \<open>Facts about the loop of \<open>fetch_news\<close>\<close>

lemma fetch_loop_raise:
  assumes "batch_raises env f t ad k q"
  shows "\<exists>e. fetch_loop env f t m ad k (q # cq) results w =
           (Inl e, w\<lparr>search_log := search_log w @ [q]\<rparr>)"
  using assms unfolding batch_raises_def
  by (auto simp: Let_def split: sum.splits option.splits)

lemma fetch_loop_raise_search:
  assumes "gn_search env k q f t = Inl e"
  shows "fetch_loop env f t m ad k (q # cq) results w =
           (Inl e, w\<lparr>search_log := search_log w @ [q]\<rparr>)"
  using assms by (simp add: Let_def)

lemma fetch_loop_continue:
  assumes "\<not> batch_raises env f t ad k q"
  shows "\<exists>w2. search_log w2 = search_log w @ [q] \<and> chat_log w2 = chat_log w \<and>
           fetch_loop env f t m ad k (q # cq) results w =
             fetch_loop env f t m ad (Suc k) cq
               (results @ slice_to m (batch_kept env f t ad k q)) w2"
proof (cases "gn_search env k q f t")
  case (Inl e)
  with assms show ?thesis by (simp add: batch_raises_def)
next
  case (Inr res)
  show ?thesis
  proof (cases res)
    case None
    let ?w2 = "w\<lparr>search_log := search_log w @ [q],
      notices := notices w @ [St_warning (''No results or 'entries' not found for query ''
        @ [CHR 0x27] @ q @ [CHR 0x27])]\<rparr>"
    have "fetch_loop env f t m ad k (q # cq) results w =
        fetch_loop env f t m ad (Suc k) cq
          (results @ slice_to m (batch_kept env f t ad k q)) ?w2"
      using Inr None by (simp add: Let_def batch_kept_def slice_to_def)
    moreover have "search_log ?w2 = search_log w @ [q]" "chat_log ?w2 = chat_log w" by simp_all
    ultimately show ?thesis by blast
  next
    case (Some entries)
    with Inr assms obtain kept where kept: "articles_for_query env ad entries = Inr kept"
      by (auto simp: batch_raises_def split: sum.splits)
    let ?w2 = "w\<lparr>search_log := search_log w @ [q]\<rparr>"
    have "fetch_loop env f t m ad k (q # cq) results w =
        fetch_loop env f t m ad (Suc k) cq
          (results @ slice_to m (batch_kept env f t ad k q)) ?w2"
      using Inr Some kept by (simp add: Let_def batch_kept_def)
    moreover have "search_log ?w2 = search_log w @ [q]" "chat_log ?w2 = chat_log w" by simp_all
    ultimately show ?thesis by blast
  qed
qed

lemma fetch_loop_raises_iff:
  "(\<exists>e w'. fetch_loop env f t m ad k cq results w = (Inl e, w')) \<longleftrightarrow>
   (\<exists>j < length cq. batch_raises env f t ad (k + j) (cq ! j))"
proof (induction cq arbitrary: k results w)
  case Nil
  show ?case by simp
next
  case (Cons q cq)
  show ?case
  proof (cases "batch_raises env f t ad k q")
    case True
    from fetch_loop_raise [OF True] have "\<exists>e w'. fetch_loop env f t m ad k (q # cq) results w = (Inl e, w')"
      by blast
    moreover have "\<exists>j < length (q # cq). batch_raises env f t ad (k + j) ((q # cq) ! j)"
      using True by (intro exI [of _ 0]) simp
    ultimately show ?thesis by blast
  next
    case False
    from fetch_loop_continue [OF False] obtain w2 where
      step: "fetch_loop env f t m ad k (q # cq) results w =
             fetch_loop env f t m ad (Suc k) cq
               (results @ slice_to m (batch_kept env f t ad k q)) w2"
      by blast
    have "(\<exists>j < length (q # cq). batch_raises env f t ad (k + j) ((q # cq) ! j)) \<longleftrightarrow>
          (\<exists>j < length cq. batch_raises env f t ad (Suc k + j) (cq ! j))"
    proof
      assume "\<exists>j < length (q # cq). batch_raises env f t ad (k + j) ((q # cq) ! j)"
      then obtain j where j: "j < length (q # cq)" "batch_raises env f t ad (k + j) ((q # cq) ! j)"
        by blast
      with False obtain i where "j = Suc i" by (cases j) auto
      with j show "\<exists>j < length cq. batch_raises env f t ad (Suc k + j) (cq ! j)"
        by (intro exI [of _ i]) simp
    next
      assume "\<exists>j < length cq. batch_raises env f t ad (Suc k + j) (cq ! j)"
      then obtain j where "j < length cq" "batch_raises env f t ad (Suc k + j) (cq ! j)"
        by blast
      then show "\<exists>j < length (q # cq). batch_raises env f t ad (k + j) ((q # cq) ! j)"
        by (intro exI [of _ "Suc j"]) simp
    qed
    with Cons.IH [of "Suc k"] step show ?thesis by (simp del: fetch_loop.simps)
  qed
qed

lemma fetch_loop_result:
  "fetch_loop env f t m ad k cq results w = (Inr r, w') \<Longrightarrow>
     r = results @ concat (map (\<lambda>(j, q). slice_to m (batch_kept env f t ad j q)) (enumerate k cq))
     \<and> search_log w' = search_log w @ cq \<and> chat_log w' = chat_log w"
proof (induction cq arbitrary: k results w)
  case Nil
  then show ?case by simp
next
  case (Cons q cq)
  have nr: "\<not> batch_raises env f t ad k q"
  proof
    assume "batch_raises env f t ad k q"
    from fetch_loop_raise [OF this, of m cq results w] Cons.prems show False by auto
  qed
  from fetch_loop_continue [OF nr] obtain w2 where
    w2: "search_log w2 = search_log w @ [q]" "chat_log w2 = chat_log w" and
    step: "fetch_loop env f t m ad k (q # cq) results w =
           fetch_loop env f t m ad (Suc k) cq
             (results @ slice_to m (batch_kept env f t ad k q)) w2"
    by blast
  from step Cons.prems have
    "fetch_loop env f t m ad (Suc k) cq (results @ slice_to m (batch_kept env f t ad k q)) w2
       = (Inr r, w')"
    by simp
  from Cons.IH [OF this] w2 show ?case by (simp del: fetch_loop.simps)
qed

lemma fetch_loop_first_raise:
  "j < length cq \<Longrightarrow> gn_search env (k + j) (cq ! j) f t = Inl e \<Longrightarrow>
   (\<forall>i < j. \<not> batch_raises env f t ad (k + i) (cq ! i)) \<Longrightarrow>
   \<exists>w'. fetch_loop env f t m ad k cq results w = (Inl e, w')
         \<and> search_log w' = search_log w @ take (Suc j) cq
         \<and> chat_log w' = chat_log w"
proof (induction cq arbitrary: j k results w)
  case Nil
  then show ?case by simp
next
  case (Cons q cq)
  show ?case
  proof (cases j)
    case 0
    with Cons.prems have "gn_search env k q f t = Inl e" by simp
    from fetch_loop_raise_search [OF this, of m ad cq results w] 0 show ?thesis
      by (simp del: fetch_loop.simps)
  next
    case (Suc i)
    with Cons.prems have i: "i < length cq" "gn_search env (Suc k + i) (cq ! i) f t = Inl e"
      by simp_all
    have ok: "\<forall>i' < i. \<not> batch_raises env f t ad (Suc k + i') (cq ! i')"
    proof (intro allI impI)
      fix i' assume "i' < i"
      then have "Suc i' < j" using Suc by simp
      with Cons.prems(3) have "\<not> batch_raises env f t ad (k + Suc i') ((q # cq) ! Suc i')"
        by blast
      then show "\<not> batch_raises env f t ad (Suc k + i') (cq ! i')" by simp
    qed
    have "0 < j" using Suc by simp
    with Cons.prems(3) have "\<not> batch_raises env f t ad (k + 0) ((q # cq) ! 0)" by blast
    then have nr: "\<not> batch_raises env f t ad k q" by simp
    from fetch_loop_continue [OF nr] obtain w2 where
      w2: "search_log w2 = search_log w @ [q]" "chat_log w2 = chat_log w" and
      step: "fetch_loop env f t m ad k (q # cq) results w =
             fetch_loop env f t m ad (Suc k) cq
               (results @ slice_to m (batch_kept env f t ad k q)) w2"
      by blast
    from Cons.IH [OF i ok] obtain w' where
      "fetch_loop env f t m ad (Suc k) cq (results @ slice_to m (batch_kept env f t ad k q)) w2
         = (Inl e, w')"
      "search_log w' = search_log w2 @ take (Suc i) cq" "chat_log w' = chat_log w2"
      by blast
    with step w2 Suc show ?thesis by (simp del: fetch_loop.simps)
  qed
qed

lemma fetch_loop_fst_world:
  "fst (fetch_loop env f t m ad k cq results w) = fst (fetch_loop env f t m ad k cq results w')"
proof (induction cq arbitrary: k results w w')
  case Nil
  show ?case by simp
next
  case (Cons q cq)
  show ?case
  proof (cases "batch_raises env f t ad k q")
    case True
    then show ?thesis unfolding batch_raises_def
      by (auto simp: Let_def split: sum.splits option.splits)
  next
    case False
    from fetch_loop_continue [OF False, of w m cq results] obtain w2 where
      a: "fetch_loop env f t m ad k (q # cq) results w =
          fetch_loop env f t m ad (Suc k) cq (results @ slice_to m (batch_kept env f t ad k q)) w2"
      by blast
    from fetch_loop_continue [OF False, of w' m cq results] obtain w3 where
      b: "fetch_loop env f t m ad k (q # cq) results w' =
          fetch_loop env f t m ad (Suc k) cq (results @ slice_to m (batch_kept env f t ad k q)) w3"
      by blast
    show ?thesis unfolding a b by (rule Cons.IH)
  qed
qed

lemma fetch_loop_chat_log:
  "chat_log (snd (fetch_loop env f t m ad k cq results w)) = chat_log w"
proof (induction cq arbitrary: k results w)
  case Nil
  show ?case by simp
next
  case (Cons q cq)
  show ?case
  proof (cases "batch_raises env f t ad k q")
    case True
    from fetch_loop_raise [OF True, of m cq results w] show ?thesis by auto
  next
    case False
    from fetch_loop_continue [OF False, of w m cq results] obtain w2 where
      "chat_log w2 = chat_log w"
      "fetch_loop env f t m ad k (q # cq) results w =
          fetch_loop env f t m ad (Suc k) cq (results @ slice_to m (batch_kept env f t ad k q)) w2"
      by blast
    with Cons.IH [of "Suc k" _ w2] show ?thesis by simp
  qed
qed

lemma fetch_news_None_iff:
  "fst (fetch_news env c fd td m queries ad w) = None \<longleftrightarrow>
   (\<exists>j < length (combined_queries (queries_or_default c queries)).
      batch_raises env (strftime_ymd env fd) (strftime_ymd env td) ad j
        (combined_queries (queries_or_default c queries) ! j))"
proof -
  let ?cq = "combined_queries (queries_or_default c queries)"
  let ?f = "strftime_ymd env fd" and ?t = "strftime_ymd env td"
  obtain r w' where loop: "fetch_loop env ?f ?t m ad 0 ?cq [] w = (r, w')"
    by (cases "fetch_loop env ?f ?t m ad 0 ?cq [] w") blast
  have "fst (fetch_news env c fd td m queries ad w) = None \<longleftrightarrow> (\<exists>e. r = Inl e)"
    unfolding fetch_news_def Let_def loop by (cases r) simp_all
  also have "\<dots> \<longleftrightarrow> (\<exists>e w''. fetch_loop env ?f ?t m ad 0 ?cq [] w = (Inl e, w''))"
    unfolding loop by simp
  also have "\<dots> \<longleftrightarrow> (\<exists>j < length ?cq. batch_raises env ?f ?t ad (0 + j) (?cq ! j))"
    by (rule fetch_loop_raises_iff)
  finally show ?thesis by simp
qed

lemma fetch_news_Some:
  assumes "fetch_news env c fd td m queries ad w = (Some r, w')"
  shows "r = slice_to m (concat (map (slice_to m) (kept_batches env c fd td queries ad)))
         \<and> search_log w' = search_log w @ combined_queries (queries_or_default c queries)
         \<and> chat_log w' = chat_log w"
proof -
  let ?cq = "combined_queries (queries_or_default c queries)"
  let ?f = "strftime_ymd env fd" and ?t = "strftime_ymd env td"
  obtain x w1 where loop: "fetch_loop env ?f ?t m ad 0 ?cq [] w = (x, w1)"
    by (cases "fetch_loop env ?f ?t m ad 0 ?cq [] w") blast
  from assms obtain results where x: "x = Inr results" and r: "r = slice_to m results"
    and w': "w' = w1"
    unfolding fetch_news_def Let_def loop by (cases x) auto
  from fetch_loop_result [OF loop [unfolded x]]
  have res: "results = concat (map (\<lambda>(j, q). slice_to m (batch_kept env ?f ?t ad j q))
                 (enumerate 0 ?cq))"
    and logs: "search_log w1 = search_log w @ ?cq" "chat_log w1 = chat_log w"
    by simp_all
  have "map (\<lambda>(j, q). slice_to m (batch_kept env ?f ?t ad j q)) (enumerate 0 ?cq)
        = map (slice_to m) (kept_batches env c fd td queries ad)"
    unfolding kept_batches_def by (simp add: case_prod_beta)
  with res r logs w' show ?thesis by simp
qed

section \<open>The query batches\<close>




section \<open>The cap on the number of articles\<close>

lemma take_concat_map_take:
  "j \<le> n \<Longrightarrow> take j (concat (map (take n) bs)) = take j (concat bs)"
proof (induction bs arbitrary: j)
  case Nil
  show ?case by simp
next
  case (Cons b bs)
  show ?case
  proof (cases "j \<le> length b")
    case True
    with Cons.prems show ?thesis by simp
  next
    case False
    with Cons.prems have b: "take n b = b" and j: "j - length b \<le> n" by simp_all
    from Cons.IH [OF j] b show ?thesis by simp
  qed
qed

lemma slice_to_nonneg: "0 \<le> n \<Longrightarrow> slice_to n xs = take (nat n) xs"
  by (simp add: slice_to_def)

lemma slice_to_concat:
  assumes "0 \<le> n"
  shows "slice_to n (concat (map (slice_to n) bs)) = take (nat n) (concat bs)"
proof -
  have "slice_to n = (take (nat n) :: 'a list \<Rightarrow> 'a list)"
    using assms by (intro ext) (simp add: slice_to_def)
  then show ?thesis
    using take_concat_map_take [of "nat n" "nat n" bs] by simp
qed

text \<open>
  Claim C5. For a cap \<open>max_articles\<close> that is not negative, the list that \<open>fetch_news\<close>
  returns is the concatenation, in batch order, of the kept articles of every batch, cut
  after the first \<open>max_articles\<close> articles: its length is the smaller of the number of kept
  articles and the cap, and cutting every batch first and the whole afterwards, as the
  program does, gives the same list as cutting the whole once.
\<close>

theorem fetch_news_cap:
  assumes "0 \<le> max_articles"
    and "fetch_news env company_name from_date to_date max_articles queries allowed_domains w
           = (Some r, w')"
  shows "r = take (nat max_articles)
               (concat (kept_batches env company_name from_date to_date queries allowed_domains))
     \<and> int (length r) = min (int (length
               (concat (kept_batches env company_name from_date to_date queries allowed_domains))))
             max_articles
     \<and> slice_to max_articles (concat (map (slice_to max_articles)
               (kept_batches env company_name from_date to_date queries allowed_domains)))
       = slice_to max_articles
               (concat (kept_batches env company_name from_date to_date queries allowed_domains))"
proof -
  let ?kept = "kept_batches env company_name from_date to_date queries allowed_domains"
  from fetch_news_Some [OF assms(2)]
  have "r = slice_to max_articles (concat (map (slice_to max_articles) ?kept))" by blast
  with slice_to_concat [OF assms(1)]
  have r: "r = take (nat max_articles) (concat ?kept)" by simp
  define L where "L = length (concat ?kept)"
  have "length r = min L (nat max_articles)" unfolding r L_def by simp
  then have "int (length r) = min (int L) max_articles" using assms(1) by linarith
  then have len: "int (length r) = min (int (length (concat ?kept))) max_articles"
    unfolding L_def .
  have "slice_to max_articles (concat (map (slice_to max_articles) ?kept))
      = take (nat max_articles) (concat ?kept)"
    by (rule slice_to_concat [OF assms(1)])
  also have "\<dots> = slice_to max_articles (concat ?kept)"
    by (rule slice_to_nonneg [OF assms(1), symmetric])
  finally have eq: "slice_to max_articles (concat (map (slice_to max_articles) ?kept))
      = slice_to max_articles (concat ?kept)" .
  from r len eq show ?thesis by blast
qed

text \<open>
  An instance: two batches with three and two articles and a cap of four; the fourth
  article returned is the first one of the second batch.
\<close>

theorem fetch_news_cap_witness:
  "fst (fetch_news
     (example_env
        (\<lambda>k. if k = 0
           then Inr (Some [example_article ''a1'' [], example_article ''a2'' [],
                           example_article ''a3'' []])
           else Inr (Some [example_article ''b1'' [], example_article ''b2'' []]))
        (\<lambda>k. Inr None))
     ''Acme'' () () 4 (Some [''q1'', ''q2'', ''q3'', ''q4'']) None empty_world)
   = Some [example_article ''a1'' [], example_article ''a2'' [], example_article ''a3'' [],
           example_article ''b1'' []]"
proof -
  let ?env = "example_env
        (\<lambda>k. if k = 0
           then Inr (Some [example_article ''a1'' [], example_article ''a2'' [],
                           example_article ''a3'' []])
           else Inr (Some [example_article ''b1'' [], example_article ''b2'' []]))
        (\<lambda>k. Inr None)"
  let ?qs = "Some [''q1'', ''q2'', ''q3'', ''q4'']"
  obtain r w' where f: "fetch_news ?env ''Acme'' () () 4 ?qs None empty_world = (r, w')"
    by (cases "fetch_news ?env ''Acme'' () () 4 ?qs None empty_world") blast
  have "fst (fetch_news ?env ''Acme'' () () 4 ?qs None empty_world) \<noteq> None"
    by code_simp
  with f obtain r' where r: "r = Some r'" by (cases r) auto
  have k: "kept_batches ?env ''Acme'' () () ?qs None
      = [ [example_article ''a1'' [], example_article ''a2'' [], example_article ''a3'' []],
         [example_article ''b1'' [], example_article ''b2'' []]]"
    by code_simp
  have "(0::int) \<le> 4" by simp
  from fetch_news_cap [OF this f [unfolded r]]
  have "r' = take (nat 4) (concat (kept_batches ?env ''Acme'' () () ?qs None))" by blast
  then have "r' = [example_article ''a1'' [], example_article ''a2'' [],
      example_article ''a3'' [], example_article ''b1'' []]"
    unfolding k by simp
  with f r show ?thesis by simp
qed

section \<open>A failing request ends the fetch\<close>

lemma fetch_news_fst_world:
  "fst (fetch_news env c fd td m queries ad w) = fst (fetch_news env c fd td m queries ad w')"
proof -
  let ?cq = "combined_queries (queries_or_default c queries)"
  let ?f = "strftime_ymd env fd" and ?t = "strftime_ymd env td"
  obtain x w1 where a: "fetch_loop env ?f ?t m ad 0 ?cq [] w = (x, w1)"
    by (cases "fetch_loop env ?f ?t m ad 0 ?cq [] w") blast
  obtain y w2 where b: "fetch_loop env ?f ?t m ad 0 ?cq [] w' = (y, w2)"
    by (cases "fetch_loop env ?f ?t m ad 0 ?cq [] w'") blast
  from fetch_loop_fst_world [of env ?f ?t m ad 0 ?cq "[]" w w'] a b have "x = y" by simp
  then show ?thesis
    unfolding fetch_news_def Let_def a b by (cases y) simp_all
qed

text \<open>
  Claim C1, as the program has it. The \<open>try\<close> block of \<open>fetch_news\<close> encloses the whole
  loop. If the request of batch \<open>j\<close> raises, and no earlier batch did, \<open>fetch_news\<close> returns
  \<open>None\<close>: the articles of the earlier batches are not returned, the batches after \<open>j\<close> are
  never requested (the requests made are those of the batches up to \<open>j\<close>), and the last
  notice shown is the error with the text of the exception.
\<close>

theorem fetch_news_stops_at_failing_batch:
  fixes env :: "'d env"
  defines "cq \<equiv> \<lambda>company_name queries.
             combined_queries (queries_or_default company_name queries)"
  assumes "j < length (cq company_name queries)"
    and "gn_search env j (cq company_name queries ! j) (strftime_ymd env from_date)
           (strftime_ymd env to_date) = Inl e"
    and "\<forall>i < j. \<not> batch_raises env (strftime_ymd env from_date) (strftime_ymd env to_date)
           allowed_domains i (cq company_name queries ! i)"
  shows "\<exists>w'. fetch_news env company_name from_date to_date max_articles queries
                allowed_domains w = (None, w')
          \<and> search_log w' = search_log w @ take (Suc j) (cq company_name queries)
          \<and> chat_log w' = chat_log w
          \<and> last (notices w')
              = St_error (''Error fetching news for '' @ company_name @ '': '' @ exn_str e)"
proof -
  let ?cq = "combined_queries (queries_or_default company_name queries)"
  let ?f = "strftime_ymd env from_date" and ?t = "strftime_ymd env to_date"
  from assms have j: "j < length ?cq" and e: "gn_search env (0 + j) (?cq ! j) ?f ?t = Inl e"
    and ok: "\<forall>i < j. \<not> batch_raises env ?f ?t allowed_domains (0 + i) (?cq ! i)"
    by simp_all
  from fetch_loop_first_raise [OF j e ok, of max_articles "[]" w] obtain w1 where
    loop: "fetch_loop env ?f ?t max_articles allowed_domains 0 ?cq [] w = (Inl e, w1)"
    and logs: "search_log w1 = search_log w @ take (Suc j) ?cq" "chat_log w1 = chat_log w"
    by blast
  let ?w' = "w1\<lparr>notices := notices w1 @
      [St_error (''Error fetching news for '' @ company_name @ '': '' @ exn_str e)]\<rparr>"
  have "fetch_news env company_name from_date to_date max_articles queries allowed_domains w
      = (None, ?w')"
    unfolding fetch_news_def Let_def loop by simp
  moreover have "search_log ?w' = search_log w @ take (Suc j) ?cq" using logs by simp
  moreover have "chat_log ?w' = chat_log w" using logs by simp
  moreover have "last (notices ?w')
      = St_error (''Error fetching news for '' @ company_name @ '': '' @ exn_str e)"
    by simp
  ultimately show ?thesis unfolding cq_def by blast
qed

text \<open>
  An instance: four queries in two batches; the first request is answered with one
  article, the second raises.
\<close>

theorem fetch_news_stops_at_failing_batch_witness:
  "fst (fetch_news
     (example_env
        (\<lambda>k. if k = 0 then Inr (Some [example_article ''a1'' []])
              else Inl (Exception ''HTTP Error 429''))
        (\<lambda>k. Inr None))
     ''Acme'' () () 10 (Some [''q1'', ''q2'', ''q3'', ''q4'']) None empty_world) = None
   \<and> search_log (snd (fetch_news
     (example_env
        (\<lambda>k. if k = 0 then Inr (Some [example_article ''a1'' []])
              else Inl (Exception ''HTTP Error 429''))
        (\<lambda>k. Inr None))
     ''Acme'' () () 10 (Some [''q1'', ''q2'', ''q3'', ''q4'']) None empty_world))
     = [''q1 OR q2 OR q3'', ''q4'']
   \<and> last (notices (snd (fetch_news
     (example_env
        (\<lambda>k. if k = 0 then Inr (Some [example_article ''a1'' []])
              else Inl (Exception ''HTTP Error 429''))
        (\<lambda>k. Inr None))
     ''Acme'' () () 10 (Some [''q1'', ''q2'', ''q3'', ''q4'']) None empty_world)))
     = St_error ''Error fetching news for Acme: HTTP Error 429''"
proof -
  let ?env = "example_env
        (\<lambda>k. if k = 0 then Inr (Some [example_article ''a1'' []])
              else Inl (Exception ''HTTP Error 429''))
        (\<lambda>k. Inr None)"
  let ?qs = "Some [''q1'', ''q2'', ''q3'', ''q4'']"
  have cq: "combined_queries (queries_or_default ''Acme'' ?qs) = [''q1 OR q2 OR q3'', ''q4'']"
    by code_simp
  have h1: "1 < length (combined_queries (queries_or_default ''Acme'' ?qs))"
    unfolding cq by simp
  have h2: "gn_search ?env 1 (combined_queries (queries_or_default ''Acme'' ?qs) ! 1)
      (strftime_ymd ?env ()) (strftime_ymd ?env ()) = Inl (Exception ''HTTP Error 429'')"
    by (simp add: example_env_def)
  have "\<not> batch_raises ?env (strftime_ymd ?env ()) (strftime_ymd ?env ()) None 0
      (combined_queries (queries_or_default ''Acme'' ?qs) ! 0)"
    by (simp add: example_env_def batch_raises_def articles_for_query_def)
  then have h3: "\<forall>i < 1. \<not> batch_raises ?env (strftime_ymd ?env ()) (strftime_ymd ?env ()) None i
      (combined_queries (queries_or_default ''Acme'' ?qs) ! i)"
    by simp
  from fetch_news_stops_at_failing_batch [OF h1 h2 h3, of 10 empty_world]
  obtain w' where "fetch_news ?env ''Acme'' () () 10 ?qs None empty_world = (None, w')"
    "search_log w' = search_log empty_world @ take (Suc 1)
       (combined_queries (queries_or_default ''Acme'' ?qs))"
    "last (notices w') = St_error (''Error fetching news for '' @ ''Acme'' @ '': ''
       @ exn_str (Exception ''HTTP Error 429''))"
    by blast
  then show ?thesis unfolding cq by (simp add: empty_world_def)
qed

text \<open>
  Against the claim as stated: when the first of two batches raises, the second batch,
  which would have given an article, is never requested and nothing is returned; when the
  second one raises, the article of the first batch is not returned.
\<close>

theorem failing_batch_aborts_counterexample:
  "fetch_news
     (example_env
        (\<lambda>k. if k = 0 then Inl (Exception ''HTTP Error 429'')
              else Inr (Some [example_article ''b1'' []]))
        (\<lambda>k. Inr None))
     ''Acme'' () () 10 (Some [''q1'', ''q2'', ''q3'', ''q4'']) None empty_world
   = (None, \<lparr>search_log = [''q1 OR q2 OR q3''], chat_log = [],
             notices = [St_error ''Error fetching news for Acme: HTTP Error 429'']\<rparr>)
   \<and> fst (fetch_news
     (example_env
        (\<lambda>k. if k = 0 then Inr (Some [example_article ''a1'' []])
              else Inl (Exception ''HTTP Error 429''))
        (\<lambda>k. Inr None))
     ''Acme'' () () 10 (Some [''q1'', ''q2'', ''q3'', ''q4'']) None empty_world)
   \<noteq> Some [example_article ''a1'' []]"
  by code_simp

section \<open>The domain filter\<close>

lemma domain_allowed_code [code]:
  "domain_allowed allowed domain = list_ex (\<lambda>d. str_in d domain) allowed"
  unfolding domain_allowed_def list_ex_iff str_in_iff ..

lemma filter_entries_parsed:
  assumes "\<forall>a \<in> set entries. urlparse_netloc env (source_link a) = Inr (netloc a)"
  shows "filter_entries env allowed entries acc
     = Inr (acc @ filter (\<lambda>a. domain_allowed allowed (str_replace ''www.'' [] (netloc a))) entries)"
  using assms
proof (induction entries arbitrary: acc)
  case Nil
  show ?case by simp
next
  case (Cons a entries)
  then have a: "article_domain env a = Inr (str_replace ''www.'' [] (netloc a))"
    by (simp add: article_domain_def)
  from Cons have rest: "\<forall>a \<in> set entries. urlparse_netloc env (source_link a) = Inr (netloc a)"
    by simp
  show ?case
    unfolding filter_entries.simps a using Cons.IH [OF rest]
    by (simp add: domain_allowed_code)
qed

lemma filter_entries_unparsed:
  assumes "a \<in> set entries" and "urlparse_netloc env (source_link a) = Inl e"
  shows "\<exists>e'. filter_entries env allowed entries acc = Inl e'"
  using assms
proof (induction entries arbitrary: acc)
  case Nil
  then show ?case by simp
next
  case (Cons b entries)
  show ?case
  proof (cases "article_domain env b")
    case (Inl e')
    then show ?thesis by simp
  next
    case (Inr domain)
    with Cons.prems have "a \<in> set entries"
      by (auto simp: article_domain_def)
    from Cons.IH [OF this Cons.prems(2)] Inr show ?thesis by simp
  qed
qed

lemma str_replace_absent:
  "\<not> str_in (p # ps) s \<Longrightarrow> str_replace (p # ps) new s = s"
proof (induction s)
  case Nil
  show ?case by simp
next
  case (Cons c cs)
  then have "\<not> starts_with (c # cs) (p # ps)" and "\<not> str_in (p # ps) cs" by simp_all
  with Cons.IH show ?case by auto
qed

lemma str_replace_leading_www:
  assumes "\<not> str_in ''www.'' (strip_leading_www netloc)"
  shows "str_replace ''www.'' [] netloc = strip_leading_www netloc"
proof (cases "starts_with netloc ''www.''")
  case False
  with assms show ?thesis by (simp add: strip_leading_www_def str_replace_absent)
next
  case True
  then obtain r where r: "netloc = ''www.'' @ r" unfolding starts_with_iff by blast
  with True assms have "\<not> str_in ''www.'' r" by (simp add: strip_leading_www_def)
  then have "str_replace ''www.'' [] r = r" by (rule str_replace_absent)
  then have "str_replace ''www.'' [] netloc = r" unfolding r by simp
  with True r show ?thesis by (simp add: strip_leading_www_def)
qed

text \<open>
  Claim C2, as the program has it. When every source link of the batch can be parsed,
  the filter of \<open>fetch_news\<close> is the filter of the specification in which the domain of an
  article is the network location of its source link with every occurrence of \<open>www.\<close>
  removed (\<open>netloc.replace('www.', '')\<close>), not only a leading one. It is the filter of the
  specification with a leading \<open>www.\<close> stripped for batches in which \<open>www.\<close> occurs in no
  network location other than as that prefix. When a source link of the batch cannot be
  parsed and the allow-list is not empty, the filter raises.
\<close>

theorem articles_for_query_is_domain_filter:
  "((\<forall>a \<in> set entries. urlparse_netloc env (source_link a) = Inr (netloc a)) \<longrightarrow>
      articles_for_query env allowed_domains entries
        = Inr (domain_filter_spec (str_replace ''www.'' []) netloc allowed_domains entries))
   \<and> ((\<forall>a \<in> set entries. urlparse_netloc env (source_link a) = Inr (netloc a)
          \<and> \<not> str_in ''www.'' (strip_leading_www (netloc a))) \<longrightarrow>
      articles_for_query env allowed_domains entries
        = Inr (domain_filter_spec strip_leading_www netloc allowed_domains entries))
   \<and> ((\<exists>a \<in> set entries. \<exists>e. urlparse_netloc env (source_link a) = Inl e) \<longrightarrow>
      (\<exists>e. articles_for_query env (Some (d # ds)) entries = Inl e))"
proof (intro conjI impI)
  assume p: "\<forall>a \<in> set entries. urlparse_netloc env (source_link a) = Inr (netloc a)"
  show "articles_for_query env allowed_domains entries
        = Inr (domain_filter_spec (str_replace ''www.'' []) netloc allowed_domains entries)"
  proof (cases allowed_domains)
    case None
    then show ?thesis by (simp add: articles_for_query_def domain_filter_spec_def)
  next
    case (Some allowed)
    show ?thesis
    proof (cases allowed)
      case Nil
      with Some show ?thesis by (simp add: articles_for_query_def domain_filter_spec_def)
    next
      case (Cons d' ds')
      have "filter_entries env (d' # ds') entries []
          = Inr (filter (\<lambda>a. domain_allowed (d' # ds')
                   (str_replace ''www.'' [] (netloc a))) entries)"
        using filter_entries_parsed [OF p, of "d' # ds'" "[]"] by simp
      with Some Cons show ?thesis
        by (cases entries) (simp_all add: articles_for_query_def domain_filter_spec_def Let_def)
    qed
  qed
next
  assume p: "\<forall>a \<in> set entries. urlparse_netloc env (source_link a) = Inr (netloc a)
          \<and> \<not> str_in ''www.'' (strip_leading_www (netloc a))"
  then have same: "\<forall>a \<in> set entries.
      str_replace ''www.'' [] (netloc a) = strip_leading_www (netloc a)"
    using str_replace_leading_www by blast
  from p have parsed: "\<forall>a \<in> set entries. urlparse_netloc env (source_link a) = Inr (netloc a)"
    by blast
  have f: "filter (\<lambda>a. domain_allowed allowed (str_replace ''www.'' [] (netloc a))) entries
      = filter (\<lambda>a. domain_allowed allowed (strip_leading_www (netloc a))) entries" for allowed
    using same by (intro filter_cong) simp_all
  show "articles_for_query env allowed_domains entries
        = Inr (domain_filter_spec strip_leading_www netloc allowed_domains entries)"
  proof (cases allowed_domains)
    case None
    then show ?thesis by (simp add: articles_for_query_def domain_filter_spec_def)
  next
    case (Some allowed)
    show ?thesis
    proof (cases allowed)
      case Nil
      with Some show ?thesis by (simp add: articles_for_query_def domain_filter_spec_def)
    next
      case (Cons d' ds')
      have "filter_entries env (d' # ds') entries []
          = Inr (filter (\<lambda>a. domain_allowed (d' # ds')
                   (strip_leading_www (netloc a))) entries)"
        using filter_entries_parsed [OF parsed, of "d' # ds'" "[]"] f by simp
      with Some Cons show ?thesis
        by (cases entries) (simp_all add: articles_for_query_def domain_filter_spec_def Let_def)
    qed
  qed
next
  assume "\<exists>a \<in> set entries. \<exists>e. urlparse_netloc env (source_link a) = Inl e"
  then obtain a e where "a \<in> set entries" "urlparse_netloc env (source_link a) = Inl e"
    by blast
  from filter_entries_unparsed [OF this, of "d # ds" "[]"]
  show "\<exists>e. articles_for_query env (Some (d # ds)) entries = Inl e"
    by (auto simp: articles_for_query_def)
qed

text \<open>
  An instance: of two articles, one from \<open>example.com\<close> and one from \<open>awww.com\<close>, the
  allow-list \<open>example.com\<close> keeps the first.
\<close>

theorem articles_for_query_is_domain_filter_witness:
  "articles_for_query (example_env (\<lambda>k. Inr None) (\<lambda>k. Inr None)) (Some [''example.com''])
     [example_article ''A'' ''https://example.com/news'',
      example_article ''B'' ''https://awww.com/story'']
   = Inr [example_article ''A'' ''https://example.com/news'']"
proof -
  let ?env = "example_env (\<lambda>k. Inr None) (\<lambda>k. Inr None) :: unit env"
  let ?A = "example_article ''A'' ''https://example.com/news''"
  let ?B = "example_article ''B'' ''https://awww.com/story''"
  have a: "urlparse_netloc ?env (source_link ?A) = Inr (example_article_netloc ?A)"
    by code_simp
  have b: "urlparse_netloc ?env (source_link ?B) = Inr (example_article_netloc ?B)"
    by code_simp
  from a b have h: "\<forall>a \<in> set [?A, ?B].
      urlparse_netloc ?env (source_link a) = Inr (example_article_netloc a)"
    by simp
  have v: "domain_filter_spec (str_replace ''www.'' []) example_article_netloc
      (Some [''example.com'']) [?A, ?B] = [?A]"
    by code_simp
  from articles_for_query_is_domain_filter
    [of "[?A, ?B]" ?env example_article_netloc "Some [''example.com'']"] h
  have "articles_for_query ?env (Some [''example.com'']) [?A, ?B]
      = Inr (domain_filter_spec (str_replace ''www.'' []) example_article_netloc
          (Some [''example.com'']) [?A, ?B])"
    by blast
  then show ?thesis unfolding v .
qed

text \<open>
  Against the claim as stated. The network location \<open>awww.com\<close> has no leading \<open>www.\<close>, so
  the filter of the specification keeps the article of that domain under the allow-list
  \<open>awww.com\<close>; the program derives the domain \<open>acom\<close>, keeps nothing, and falls back to the
  first article of the batch. And a source link that \<open>urlparse\<close> rejects makes the filter
  raise instead of returning a list.
\<close>

theorem leading_www_counterexample:
  "articles_for_query (example_env (\<lambda>k. Inr None) (\<lambda>k. Inr None)) (Some [''awww.com''])
     [example_article ''A'' ''https://example.com/news'',
      example_article ''B'' ''https://awww.com/story'']
   = Inr [example_article ''A'' ''https://example.com/news'']
   \<and> domain_filter_spec strip_leading_www example_article_netloc (Some [''awww.com''])
     [example_article ''A'' ''https://example.com/news'',
      example_article ''B'' ''https://awww.com/story'']
   = [example_article ''B'' ''https://awww.com/story'']
   \<and> articles_for_query (example_env (\<lambda>k. Inr None) (\<lambda>k. Inr None)) (Some [''example.com''])
     [example_article ''C'' ''http://[example.com/news'']
   = Inl (Exception ''Invalid IPv6 URL'')"
  by code_simp

section \<open>Facts about the classification\<close>

lemma analyze_text_logs:
  assumes "analyze_text env c text tmpl w = (res, w')"
  shows "chat_log w' = chat_log w @ [str_format tmpl text] \<and> search_log w' = search_log w"
proof (cases "chat_completion env (length (chat_log w)) (str_format tmpl text)")
  case (Inl e)
  with assms show ?thesis by (auto simp: analyze_text_def Let_def)
next
  case (Inr out)
  with assms show ?thesis by (cases out) (auto simp: analyze_text_def Let_def)
qed

lemma analyze_article_step:
  "\<exists>x comb2 w2. analyze_article env c i a (lst, comb, w) = (lst @ [x], comb2, w2)
     \<and> (process_article a = [] \<longrightarrow> entry_analysis x = no_text_analysis \<and> w2 = w)
     \<and> (process_article a \<noteq> [] \<longrightarrow>
          chat_log w2 = chat_log w @ [str_format PROMPT_INDIVIDUAL_ANALYSIS (process_article a)]
          \<and> search_log w2 = search_log w)"
proof (cases "process_article a = []")
  case True
  then show ?thesis by (simp add: analyze_article_def Let_def)
next
  case False
  obtain res w2 where t: "analyze_text env c (process_article a) PROMPT_INDIVIDUAL_ANALYSIS w
      = (res, w2)"
    by (cases "analyze_text env c (process_article a) PROMPT_INDIVIDUAL_ANALYSIS w") blast
  from analyze_text_logs [OF t] False t show ?thesis
    by (simp add: analyze_article_def Let_def)
qed

lemma analyze_loop_entries:
  "analyze_loop env c i arts (lst, comb, w) = (lst', comb', w') \<Longrightarrow>
     (\<exists>ys. lst' = lst @ ys \<and> length ys = length arts
        \<and> (\<forall>j < length arts. process_article (arts ! j) = [] \<longrightarrow>
              entry_analysis (ys ! j) = no_text_analysis))
     \<and> length (chat_log w') = length (chat_log w)
          + length (filter (\<lambda>a. process_article a \<noteq> []) arts)
     \<and> search_log w' = search_log w"
proof (induction arts arbitrary: i lst comb w)
  case Nil
  then show ?case by simp
next
  case (Cons a arts)
  from analyze_article_step [of env c i a lst comb w] obtain x comb2 w2 where
    step: "analyze_article env c i a (lst, comb, w) = (lst @ [x], comb2, w2)"
    and nt: "process_article a = [] \<longrightarrow> entry_analysis x = no_text_analysis \<and> w2 = w"
    and tx: "process_article a \<noteq> [] \<longrightarrow>
          chat_log w2 = chat_log w @ [str_format PROMPT_INDIVIDUAL_ANALYSIS (process_article a)]
          \<and> search_log w2 = search_log w"
    by blast
  from Cons.prems step have
    "analyze_loop env c (Suc i) arts (lst @ [x], comb2, w2) = (lst', comb', w')"
    by simp
  from Cons.IH [OF this] obtain ys where
    ys: "lst' = (lst @ [x]) @ ys" "length ys = length arts"
      "\<forall>j < length arts. process_article (arts ! j) = [] \<longrightarrow>
              entry_analysis (ys ! j) = no_text_analysis"
    and logs: "length (chat_log w') = length (chat_log w2)
          + length (filter (\<lambda>a. process_article a \<noteq> []) arts)"
      "search_log w' = search_log w2"
    by blast
  have "\<forall>j < length (a # arts). process_article ((a # arts) ! j) = [] \<longrightarrow>
              entry_analysis ((x # ys) ! j) = no_text_analysis"
  proof (intro allI impI)
    fix j assume j: "j < length (a # arts)" and p: "process_article ((a # arts) ! j) = []"
    show "entry_analysis ((x # ys) ! j) = no_text_analysis"
    proof (cases j)
      case 0
      with p nt show ?thesis by simp
    next
      case (Suc k)
      with j p ys(3) show ?thesis by simp
    qed
  qed
  moreover have "lst' = lst @ (x # ys)" using ys(1) by simp
  moreover have "length (x # ys) = length (a # arts)" using ys(2) by simp
  moreover have "length (chat_log w') = length (chat_log w)
          + length (filter (\<lambda>a. process_article a \<noteq> []) (a # arts))"
    using logs(1) nt tx by (cases "process_article a = []") simp_all
  moreover have "search_log w' = search_log w"
    using logs(2) nt tx by (cases "process_article a = []") simp_all
  ultimately show ?case by blast
qed

lemma process_article_empty_iff:
  "process_article a = [] \<longleftrightarrow>
     (summary a = None \<or> summary a = Some []) \<and> (title a = None \<or> title a = Some [])"
  by (cases "summary a"; cases "title a") (simp_all add: process_article_def)

section \<open>An article without text\<close>

text \<open>
  Claim C7. \<open>process_article\<close> gives the empty text exactly when the summary and the title
  are both missing or empty. For such an article the turn of the loop of \<open>analyze_news\<close>
  appends the canned analysis \<open>No Upsell Opportunity Indicated (No text in article
  summary/title).\<close> and leaves the world as it is: no request to the text-generation
  service and no notice. Over the whole loop, every article without text has the canned
  analysis at its position, and the requests made are at most as many as the articles
  that have text.
\<close>

theorem no_text_article_is_not_sent:
  "(process_article a = [] \<longleftrightarrow>
      (summary a = None \<or> summary a = Some []) \<and> (title a = None \<or> title a = Some []))
   \<and> no_text_analysis = ''No Upsell Opportunity Indicated (No text in article summary/title).''
   \<and> (process_article a = [] \<longrightarrow>
        analyze_article env company_name i a (lst, comb, w)
          = (lst @ [\<lparr>entry_title = (case title a of None \<Rightarrow> ''Article '' @ str_of_nat (i + 1)
                                      | Some t \<Rightarrow> t),
                     entry_url = (case link a of None \<Rightarrow> ''No URL available'' | Some u \<Rightarrow> u),
                     entry_analysis = no_text_analysis\<rparr>],
             comb @ ''Article '' @ str_of_nat (i + 1) @ '' Analysis:\<newline>'' @ no_text_analysis
               @ ''\<newline>\<newline>'',
             w))
   \<and> (analyze_loop env company_name i arts (lst, comb, w) = (lst', comb', w') \<longrightarrow>
        (\<exists>ys. lst' = lst @ ys \<and> length ys = length arts
           \<and> (\<forall>j < length arts. process_article (arts ! j) = [] \<longrightarrow>
                 entry_analysis (ys ! j) = no_text_analysis))
        \<and> length (chat_log w') \<le> length (chat_log w)
             + length (filter (\<lambda>a. process_article a \<noteq> []) arts))"
proof -
  have c1: "process_article a = [] \<longleftrightarrow>
      (summary a = None \<or> summary a = Some []) \<and> (title a = None \<or> title a = Some [])"
    by (rule process_article_empty_iff)
  have c2: "no_text_analysis
      = ''No Upsell Opportunity Indicated (No text in article summary/title).''"
    by (simp add: no_text_analysis_def)
  have c3: "process_article a = [] \<longrightarrow>
        analyze_article env company_name i a (lst, comb, w)
          = (lst @ [\<lparr>entry_title = (case title a of None \<Rightarrow> ''Article '' @ str_of_nat (i + 1)
                                      | Some t \<Rightarrow> t),
                     entry_url = (case link a of None \<Rightarrow> ''No URL available'' | Some u \<Rightarrow> u),
                     entry_analysis = no_text_analysis\<rparr>],
             comb @ ''Article '' @ str_of_nat (i + 1) @ '' Analysis:\<newline>'' @ no_text_analysis
               @ ''\<newline>\<newline>'',
             w)"
    by (simp add: analyze_article_def Let_def)
  have c4: "analyze_loop env company_name i arts (lst, comb, w) = (lst', comb', w') \<longrightarrow>
        (\<exists>ys. lst' = lst @ ys \<and> length ys = length arts
           \<and> (\<forall>j < length arts. process_article (arts ! j) = [] \<longrightarrow>
                 entry_analysis (ys ! j) = no_text_analysis))
        \<and> length (chat_log w') \<le> length (chat_log w)
             + length (filter (\<lambda>a. process_article a \<noteq> []) arts)"
    using analyze_loop_entries [of env company_name i arts lst comb w lst' comb' w']
    by (simp add: le_eq_less_or_eq)
  from c1 c2 c3 c4 show ?thesis by blast
qed

text \<open>An instance: an article with an empty summary and an empty title, as the only
  article of a company.\<close>

theorem no_text_article_is_not_sent_witness:
  "process_article \<lparr>title = Some [], summary = Some [], link = None, source_href = None\<rparr> = []
   \<and> analyze_article (example_env (\<lambda>k. Inr None) (\<lambda>k. Inl (Exception ''unreachable'')))
        ''Acme'' 0 \<lparr>title = Some [], summary = Some [], link = None, source_href = None\<rparr>
        ([], [], empty_world)
     = ([\<lparr>entry_title = [], entry_url = ''No URL available'',
          entry_analysis =
            ''No Upsell Opportunity Indicated (No text in article summary/title).''\<rparr>],
        ''Article 1 Analysis:\<newline>No Upsell Opportunity Indicated (No text in article summary/title).\<newline>\<newline>'',
        empty_world)"
proof -
  let ?a = "\<lparr>title = Some [], summary = Some [], link = None, source_href = None\<rparr>"
  let ?env = "example_env (\<lambda>k. Inr None) (\<lambda>k. Inl (Exception ''unreachable'')) :: unit env"
  note T = no_text_article_is_not_sent [of ?a ?env "''Acme''" 0 "[]" "[]" empty_world]
  from T have p: "process_article ?a = []" by simp
  have n: "str_of_nat (0 + 1) = ''1''" by code_simp
  from T p have "analyze_article ?env ''Acme'' 0 ?a ([], [], empty_world)
      = ([] @ [\<lparr>entry_title = (case title ?a of None \<Rightarrow> ''Article '' @ str_of_nat (0 + 1)
                                      | Some t \<Rightarrow> t),
                 entry_url = (case link ?a of None \<Rightarrow> ''No URL available'' | Some u \<Rightarrow> u),
                 entry_analysis = no_text_analysis\<rparr>],
         [] @ ''Article '' @ str_of_nat (0 + 1) @ '' Analysis:\<newline>'' @ no_text_analysis
           @ ''\<newline>\<newline>'',
         empty_world)"
    by blast
  with p show ?thesis unfolding n by (simp add: no_text_analysis_def)
qed

section \<open>Facts about \<open>analyze_news\<close>\<close>

lemma fetch_news_chat_log:
  "chat_log (snd (fetch_news env c fd td m queries ad w)) = chat_log w"
proof -
  let ?cq = "combined_queries (queries_or_default c queries)"
  let ?f = "strftime_ymd env fd" and ?t = "strftime_ymd env td"
  obtain x w1 where loop: "fetch_loop env ?f ?t m ad 0 ?cq [] w = (x, w1)"
    by (cases "fetch_loop env ?f ?t m ad 0 ?cq [] w") blast
  from fetch_loop_chat_log [of env ?f ?t m ad 0 ?cq "[]" w] loop
  have "chat_log w1 = chat_log w" by simp
  then show ?thesis
    unfolding fetch_news_def Let_def loop by (cases x) simp_all
qed

lemma analyze_news_no_news:
  assumes "fst (fetch_news env c fd td m queries ad w1) = None
         \<or> fst (fetch_news env c fd td m queries ad w1) = Some []"
  shows "analyze_news env c fd td m queries ad w
     = (no_news_report,
        snd (fetch_news env c fd td m queries ad
               (w\<lparr>notices := notices w @
                    [St_subheader (''Analyzing News for **'' @ c @ ''**'')]\<rparr>)))"
proof -
  let ?w0 = "w\<lparr>notices := notices w @ [St_subheader (''Analyzing News for **'' @ c @ ''**'')]\<rparr>"
  obtain x w2 where f: "fetch_news env c fd td m queries ad ?w0 = (x, w2)"
    by (cases "fetch_news env c fd td m queries ad ?w0") blast
  from fetch_news_fst_world [of env c fd td m queries ad ?w0 w1] f assms
  have "x = None \<or> x = Some []" by simp
  then show ?thesis
    unfolding analyze_news_def Let_def f by auto
qed

lemma analyze_news_some_news:
  assumes "fst (fetch_news env c fd td m queries ad w1) = Some (a # arts)"
  shows "length (individual_analyses (fst (analyze_news env c fd td m queries ad w)))
           = length (a # arts)"
proof -
  let ?w0 = "w\<lparr>notices := notices w @ [St_subheader (''Analyzing News for **'' @ c @ ''**'')]\<rparr>"
  obtain x w2 where f: "fetch_news env c fd td m queries ad ?w0 = (x, w2)"
    by (cases "fetch_news env c fd td m queries ad ?w0") blast
  from fetch_news_fst_world [of env c fd td m queries ad ?w0 w1] f assms
  have x: "x = Some (a # arts)" by simp
  obtain lst comb w3 where
    loop: "analyze_loop env c 0 (a # arts) ([], [], w2) = (lst, comb, w3)"
    by (cases "analyze_loop env c 0 (a # arts) ([], [], w2)") blast
  from analyze_loop_entries [OF loop]
  have len: "length lst = length (a # arts)"
    by auto
  from len have ne: "lst \<noteq> []" by auto
  obtain overall w4 where
    t: "analyze_text env c (str_format PROMPT_COMBINED_ANALYSIS (strip comb))
          provided_text_only w3 = (overall, w4)"
    by (cases "analyze_text env c (str_format PROMPT_COMBINED_ANALYSIS (strip comb))
          provided_text_only w3") blast
  have "analyze_news env c fd td m queries ad w
      = (\<lparr>individual_analyses = lst, overall_summary = overall\<rparr>, w4)"
    unfolding analyze_news_def Let_def f x using loop ne t
    by (simp del: analyze_loop.simps)
  with len show ?thesis by simp
qed

section \<open>A failing text-generation request\<close>

text \<open>
  Claim C6. If the text-generation request made by \<open>analyze_text\<close> raises an exception,
  \<open>analyze_text\<close> returns the text \<open>Analysis failed due to AI service error.\<close> and shows an
  error notice with the company name and the text of the exception; no exception leaves
  it. Whatever the requests do, \<open>analyze_news\<close> returns one analysis for every article that
  \<open>fetch_news\<close> returned, so the articles after a failed one are still classified.
\<close>

theorem analyze_text_failure_is_contained:
  "(chat_completion env (length (chat_log w)) (str_format prompt_template provided_text) = Inl e
      \<longrightarrow>
      analyze_text env company_name provided_text prompt_template w
        = (''Analysis failed due to AI service error.'',
           w\<lparr>chat_log := chat_log w @ [str_format prompt_template provided_text],
             notices := notices w @
               [St_error (''Error querying Together AI for '' @ company_name @ '': ''
                  @ exn_str e)]\<rparr>))
   \<and> (fst (fetch_news env company_name from_date to_date max_articles queries allowed_domains
              w1) = Some arts \<longrightarrow>
      length (individual_analyses (fst (analyze_news env company_name from_date to_date
              max_articles queries allowed_domains w))) = length arts)"
proof (intro conjI impI)
  assume "chat_completion env (length (chat_log w)) (str_format prompt_template provided_text)
      = Inl e"
  then show "analyze_text env company_name provided_text prompt_template w
        = (''Analysis failed due to AI service error.'',
           w\<lparr>chat_log := chat_log w @ [str_format prompt_template provided_text],
             notices := notices w @
               [St_error (''Error querying Together AI for '' @ company_name @ '': ''
                  @ exn_str e)]\<rparr>)"
    by (simp add: analyze_text_def Let_def)
next
  assume f: "fst (fetch_news env company_name from_date to_date max_articles queries
      allowed_domains w1) = Some arts"
  show "length (individual_analyses (fst (analyze_news env company_name from_date to_date
              max_articles queries allowed_domains w))) = length arts"
  proof (cases arts)
    case Nil
    with f analyze_news_no_news [of env company_name from_date to_date max_articles queries
        allowed_domains w1 w]
    show ?thesis by (simp add: no_news_report_def)
  next
    case (Cons a rest)
    with f analyze_news_some_news [of env company_name from_date to_date max_articles queries
        allowed_domains w1 a rest w]
    show ?thesis by simp
  qed
qed

text \<open>
  An instance: a request that is refused, and a company with three articles of which the
  second one's request is refused.
\<close>

theorem analyze_text_failure_is_contained_witness:
  "analyze_text (example_env (\<lambda>k. Inr None) (\<lambda>k. Inl (Exception ''rate limit exceeded'')))
     ''Acme'' ''Acme hires 500 engineers'' provided_text_only empty_world
   = (''Analysis failed due to AI service error.'',
      \<lparr>search_log = [], chat_log = [''Acme hires 500 engineers''],
       notices = [St_error ''Error querying Together AI for Acme: rate limit exceeded'']\<rparr>)
   \<and> map entry_analysis (individual_analyses (fst (analyze_news
        (example_env
           (\<lambda>k. Inr (Some [example_article ''Acme hires'' [], example_article ''Acme IPO'' [],
                            example_article ''Acme award'' []]))
           (\<lambda>k. if k = 1 then Inl (Exception ''rate limit exceeded'')
                 else Inr (Some ''High Opportunity'')))
        ''Acme'' () () 10 None None empty_world)))
   = [''High Opportunity'', ''Analysis failed due to AI service error.'', ''High Opportunity'']"
proof -
  let ?env = "example_env (\<lambda>k. Inr None) (\<lambda>k. Inl (Exception ''rate limit exceeded''))
      :: unit env"
  have h: "chat_completion ?env (length (chat_log empty_world))
      (str_format provided_text_only ''Acme hires 500 engineers'')
      = Inl (Exception ''rate limit exceeded'')"
    by (simp add: example_env_def)
  have p: "str_format provided_text_only ''Acme hires 500 engineers''
      = ''Acme hires 500 engineers''"
    by (simp add: provided_text_only_def)
  from analyze_text_failure_is_contained
    [of ?env empty_world provided_text_only "''Acme hires 500 engineers''"
      "Exception ''rate limit exceeded''" "''Acme''"] h
  have "analyze_text ?env ''Acme'' ''Acme hires 500 engineers'' provided_text_only empty_world
        = (''Analysis failed due to AI service error.'',
           empty_world\<lparr>chat_log := chat_log empty_world
               @ [str_format provided_text_only ''Acme hires 500 engineers''],
             notices := notices empty_world @
               [St_error (''Error querying Together AI for '' @ ''Acme'' @ '': ''
                  @ exn_str (Exception ''rate limit exceeded''))]\<rparr>)"
    by blast
  then have a: "analyze_text ?env ''Acme'' ''Acme hires 500 engineers'' provided_text_only
        empty_world
      = (''Analysis failed due to AI service error.'',
         \<lparr>search_log = [], chat_log = [''Acme hires 500 engineers''],
          notices = [St_error ''Error querying Together AI for Acme: rate limit exceeded'']\<rparr>)"
    unfolding p by (simp add: empty_world_def)
  have b: "map entry_analysis (individual_analyses (fst (analyze_news
        (example_env
           (\<lambda>k. Inr (Some [example_article ''Acme hires'' [], example_article ''Acme IPO'' [],
                            example_article ''Acme award'' []]))
           (\<lambda>k. if k = 1 then Inl (Exception ''rate limit exceeded'')
                 else Inr (Some ''High Opportunity'')))
        ''Acme'' () () 10 None None empty_world)))
      = [''High Opportunity'', ''Analysis failed due to AI service error.'',
         ''High Opportunity'']"
    by code_simp
  from a b show ?thesis by blast
qed

section \<open>No articles\<close>

text \<open>
  Claim C8, as the program has it. \<open>analyze_news\<close> has no per-article analysis exactly
  when \<open>fetch_news\<close> returned \<open>None\<close> or an empty list. It then returns at once: no request
  is made to the text-generation service and the overall summary is the text
  \<open>No relevant news articles found for analysis.\<close>
\<close>

theorem no_articles_no_overall_request:
  "(individual_analyses (fst (analyze_news env company_name from_date to_date max_articles
        queries allowed_domains w)) = [] \<longleftrightarrow>
      fst (fetch_news env company_name from_date to_date max_articles queries
        allowed_domains w) = None
      \<or> fst (fetch_news env company_name from_date to_date max_articles queries
        allowed_domains w) = Some [])
   \<and> (individual_analyses (fst (analyze_news env company_name from_date to_date max_articles
        queries allowed_domains w)) = [] \<longrightarrow>
      overall_summary (fst (analyze_news env company_name from_date to_date max_articles
        queries allowed_domains w)) = ''No relevant news articles found for analysis.''
      \<and> chat_log (snd (analyze_news env company_name from_date to_date max_articles
        queries allowed_domains w)) = chat_log w)"
proof -
  let ?fetch = "fst (fetch_news env company_name from_date to_date max_articles queries
        allowed_domains w)"
  let ?news = "analyze_news env company_name from_date to_date max_articles queries
        allowed_domains w"
  consider (none) "?fetch = None \<or> ?fetch = Some []"
    | (some) b rest where "?fetch = Some (b # rest)"
  proof (cases ?fetch)
    case None
    then show ?thesis using none by blast
  next
    case (Some xs)
    then show ?thesis using none some by (cases xs) auto
  qed
  then show ?thesis
  proof cases
    case none
    from analyze_news_no_news [OF none, of w]
    have r: "fst ?news = no_news_report"
      and "snd ?news = snd (fetch_news env company_name from_date to_date max_articles queries
        allowed_domains (w\<lparr>notices := notices w @
           [St_subheader (''Analyzing News for **'' @ company_name @ ''**'')]\<rparr>))"
      by simp_all
    then have c: "chat_log (snd ?news) = chat_log w"
      by (simp add: fetch_news_chat_log)
    from r have "individual_analyses (fst ?news) = []"
      and "overall_summary (fst ?news) = ''No relevant news articles found for analysis.''"
      by (simp_all add: no_news_report_def)
    with none c show ?thesis by auto
  next
    case some
    from analyze_news_some_news [OF some, of w]
    have "length (individual_analyses (fst ?news)) = length (b # rest)"
      by blast
    then have "individual_analyses (fst ?news) \<noteq> []" by auto
    with some show ?thesis by auto
  qed
qed

text \<open>An instance: the news source has no entry for any request of the company.\<close>

theorem no_articles_no_overall_request_witness:
  "individual_analyses (fst (analyze_news
       (example_env (\<lambda>k. Inr (Some [])) (\<lambda>k. Inr (Some ''High Opportunity'')))
       ''Acme'' () () 10 None None empty_world)) = []
   \<and> overall_summary (fst (analyze_news
       (example_env (\<lambda>k. Inr (Some [])) (\<lambda>k. Inr (Some ''High Opportunity'')))
       ''Acme'' () () 10 None None empty_world))
     = ''No relevant news articles found for analysis.''
   \<and> chat_log (snd (analyze_news
       (example_env (\<lambda>k. Inr (Some [])) (\<lambda>k. Inr (Some ''High Opportunity'')))
       ''Acme'' () () 10 None None empty_world)) = []"
proof -
  let ?env = "example_env (\<lambda>k. Inr (Some [])) (\<lambda>k. Inr (Some ''High Opportunity''))
      :: unit env"
  have f: "fst (fetch_news ?env ''Acme'' () () 10 None None empty_world) = Some []"
    by code_simp
  have e: "chat_log empty_world = []" by (simp add: empty_world_def)
  note T = no_articles_no_overall_request [of ?env "''Acme''" "()" "()" 10 None None empty_world]
  from T f have a: "individual_analyses (fst (analyze_news ?env ''Acme'' () () 10 None None
      empty_world)) = []"
    by blast
  with T have "overall_summary (fst (analyze_news ?env ''Acme'' () () 10 None None empty_world))
      = ''No relevant news articles found for analysis.''
    \<and> chat_log (snd (analyze_news ?env ''Acme'' () () 10 None None empty_world))
      = chat_log empty_world"
    by blast
  with a e show ?thesis by simp
qed

text \<open>
  Against the claim as stated: for a company without any news entry, the overall
  summary is not the text \<open>Overall No Upsell Opportunity Indicated.\<close>
\<close>

theorem no_articles_summary_counterexample:
  "fst (analyze_news
       (example_env (\<lambda>k. Inr (Some [])) (\<lambda>k. Inr (Some ''High Opportunity'')))
       ''Acme'' () () 10 None None empty_world)
     = \<lparr>individual_analyses = [],
        overall_summary = ''No relevant news articles found for analysis.''\<rparr>
   \<and> overall_summary (fst (analyze_news
       (example_env (\<lambda>k. Inr (Some [])) (\<lambda>k. Inr (Some ''High Opportunity'')))
       ''Acme'' () () 10 None None empty_world))
     \<noteq> ''Overall No Upsell Opportunity Indicated.''"
  by code_simp

section \<open>A failed fetch reads as no news\<close>

text \<open>
  Claim C10. \<open>fetch_news\<close> returns \<open>None\<close> exactly when some turn of its loop raises,
  whatever the turns before it gathered. \<open>analyze_news\<close> gives the same report for
  \<open>None\<close> and for an empty list: no analyses, and the overall summary
  \<open>No relevant news articles found for analysis.\<close>
\<close>

theorem fetch_failure_reads_as_no_news:
  "(fst (fetch_news env company_name from_date to_date max_articles queries allowed_domains w)
      = None \<longleftrightarrow>
      (\<exists>j < length (combined_queries (queries_or_default company_name queries)).
         batch_raises env (strftime_ymd env from_date) (strftime_ymd env to_date)
           allowed_domains j
           (combined_queries (queries_or_default company_name queries) ! j)))
   \<and> (fst (fetch_news env company_name from_date to_date max_articles queries allowed_domains
          w) = None
       \<or> fst (fetch_news env company_name from_date to_date max_articles queries
          allowed_domains w) = Some [] \<longrightarrow>
      fst (analyze_news env company_name from_date to_date max_articles queries
          allowed_domains w)
        = \<lparr>individual_analyses = [],
           overall_summary = ''No relevant news articles found for analysis.''\<rparr>)"
proof (intro conjI impI)
  show "fst (fetch_news env company_name from_date to_date max_articles queries
      allowed_domains w) = None \<longleftrightarrow>
      (\<exists>j < length (combined_queries (queries_or_default company_name queries)).
         batch_raises env (strftime_ymd env from_date) (strftime_ymd env to_date)
           allowed_domains j
           (combined_queries (queries_or_default company_name queries) ! j))"
    by (rule fetch_news_None_iff)
next
  assume "fst (fetch_news env company_name from_date to_date max_articles queries
          allowed_domains w) = None
       \<or> fst (fetch_news env company_name from_date to_date max_articles queries
          allowed_domains w) = Some []"
  from analyze_news_no_news [OF this, of w]
  show "fst (analyze_news env company_name from_date to_date max_articles queries
          allowed_domains w)
        = \<lparr>individual_analyses = [],
           overall_summary = ''No relevant news articles found for analysis.''\<rparr>"
    by (simp add: no_news_report_def)
qed

text \<open>
  An instance: a news source whose second request raises after the first gave an
  article, and a news source without any entry, give the same report.
\<close>

theorem fetch_failure_reads_as_no_news_witness:
  "fst (fetch_news
     (example_env
        (\<lambda>k. if k = 0 then Inr (Some [example_article ''a1'' []])
              else Inl (Exception ''HTTP Error 429''))
        (\<lambda>k. Inr (Some ''High Opportunity'')))
     ''Acme'' () () 10 (Some [''q1'', ''q2'', ''q3'', ''q4'']) None empty_world) = None
   \<and> fst (analyze_news
     (example_env
        (\<lambda>k. if k = 0 then Inr (Some [example_article ''a1'' []])
              else Inl (Exception ''HTTP Error 429''))
        (\<lambda>k. Inr (Some ''High Opportunity'')))
     ''Acme'' () () 10 (Some [''q1'', ''q2'', ''q3'', ''q4'']) None empty_world)
     = fst (analyze_news
     (example_env (\<lambda>k. Inr (Some [])) (\<lambda>k. Inr (Some ''High Opportunity'')))
     ''Acme'' () () 10 (Some [''q1'', ''q2'', ''q3'', ''q4'']) None empty_world)"
proof -
  let ?failing = "example_env
        (\<lambda>k. if k = 0 then Inr (Some [example_article ''a1'' []])
              else Inl (Exception ''HTTP Error 429''))
        (\<lambda>k. Inr (Some ''High Opportunity'')) :: unit env"
  let ?silent = "example_env (\<lambda>k. Inr (Some [])) (\<lambda>k. Inr (Some ''High Opportunity''))
      :: unit env"
  let ?qs = "Some [''q1'', ''q2'', ''q3'', ''q4'']"
  have a: "fst (fetch_news ?failing ''Acme'' () () 10 ?qs None empty_world) = None"
    by code_simp
  have b: "fst (fetch_news ?silent ''Acme'' () () 10 ?qs None empty_world) = Some []"
    by code_simp
  from fetch_failure_reads_as_no_news [of ?failing "''Acme''" "()" "()" 10 ?qs None empty_world]
    a
  have "fst (analyze_news ?failing ''Acme'' () () 10 ?qs None empty_world)
      = \<lparr>individual_analyses = [],
         overall_summary = ''No relevant news articles found for analysis.''\<rparr>"
    by blast
  moreover
  from fetch_failure_reads_as_no_news [of ?silent "''Acme''" "()" "()" 10 ?qs None empty_world]
    b
  have "fst (analyze_news ?silent ''Acme'' () () 10 ?qs None empty_world)
      = \<lparr>individual_analyses = [],
         overall_summary = ''No relevant news articles found for analysis.''\<rparr>"
    by blast
  ultimately show ?thesis using a by simp
qed

section \<open>The time-to-live of the result cache\<close>

lemma memoize_no_live_entry:
  assumes "\<forall>v t0. cache_entries cache key = Some (v, t0) \<longrightarrow> ttl_seconds < now - t0"
  shows "memoize ttl_seconds now key compute (cache, s)
     = compute_and_store now key compute (cache, s)"
proof (cases "cache_entries cache key")
  case None
  then show ?thesis by (simp add: memoize_def)
next
  case (Some entry)
  obtain v t0 where "entry = (v, t0)" by (cases entry) blast
  with Some assms show ?thesis by (simp add: memoize_def)
qed

lemma compute_and_store_result:
  assumes "compute_and_store now key compute (cache, s) = (v, cache', s')"
  shows "(v, s') = compute s \<and> computations cache' = computations cache + 1
     \<and> cache_entries cache' key = Some (v, now)"
proof -
  obtain x y where c: "compute s = (x, y)" by (cases "compute s") blast
  with assms show ?thesis by (auto simp: compute_and_store_def)
qed

text \<open>
  Claim C9, on the cache as the specification describes it. Take a call at the time
  \<open>t1\<close> that finds no live entry for its key (none, or only one older than 3600 seconds,
  which is therefore not returned), and the next call with the same key at the time \<open>t2\<close>.
  The first call invokes the computation. If less than 3600 seconds have passed, the
  second call returns the value of the first and invokes nothing: the value, the state of
  the world and the cache are those left by the first call. If more than 3600 seconds
  have passed, the second call invokes the computation again and stores its result with
  the time \<open>t2\<close>. The two decorated operations are this cache with a time-to-live of 3600
  seconds.
\<close>

theorem memoize_ttl_3600:
  fixes compute :: "'s \<Rightarrow> 'v \<times> 's" and env :: "'d env"
  assumes "\<forall>v t0. cache_entries cache key = Some (v, t0) \<longrightarrow> 3600 < t1 - t0"
    and "t1 \<le> t2"
    and "memoize 3600 t1 key compute (cache, s) = (v1, cache1, s1)"
    and "memoize 3600 t2 key compute (cache1, s1) = (v2, cache2, s2)"
  shows "(v1, s1) = compute s \<and> computations cache1 = computations cache + 1
     \<and> (t2 - t1 < 3600 \<longrightarrow> v2 = v1 \<and> s2 = s1 \<and> cache2 = cache1)
     \<and> (3600 < t2 - t1 \<longrightarrow>
          (v2, s2) = compute s1 \<and> computations cache2 = computations cache + 2
          \<and> cache_entries cache2 key = Some (v2, t2))
     \<and> analyze_text_cached env now company_name provided_text prompt_template
          = memoize 3600 now (company_name, provided_text, prompt_template)
              (analyze_text env company_name provided_text prompt_template)
     \<and> fetch_news_cached env now company_name from_date to_date max_articles queries
            allowed_domains
          = memoize 3600 now
              (company_name, from_date, to_date, max_articles, queries, allowed_domains)
              (fetch_news env company_name from_date to_date max_articles queries
                 allowed_domains)"
proof -
  from memoize_no_live_entry [OF assms(1), of compute s] assms(3)
  have "compute_and_store t1 key compute (cache, s) = (v1, cache1, s1)" by simp
  from compute_and_store_result [OF this]
  have first: "(v1, s1) = compute s" "computations cache1 = computations cache + 1"
    and entry: "cache_entries cache1 key = Some (v1, t1)"
    by blast+
  have within: "t2 - t1 < 3600 \<longrightarrow> v2 = v1 \<and> s2 = s1 \<and> cache2 = cache1"
  proof
    assume "t2 - t1 < 3600"
    with entry assms(4) show "v2 = v1 \<and> s2 = s1 \<and> cache2 = cache1"
      by (simp add: memoize_def)
  qed
  have after: "3600 < t2 - t1 \<longrightarrow>
          (v2, s2) = compute s1 \<and> computations cache2 = computations cache + 2
          \<and> cache_entries cache2 key = Some (v2, t2)"
  proof
    assume "3600 < t2 - t1"
    with entry assms(4)
    have "compute_and_store t2 key compute (cache1, s1) = (v2, cache2, s2)"
      by (simp add: memoize_def)
    from compute_and_store_result [OF this] first(2)
    show "(v2, s2) = compute s1 \<and> computations cache2 = computations cache + 2
          \<and> cache_entries cache2 key = Some (v2, t2)"
      by simp
  qed
  have ops: "analyze_text_cached env now company_name provided_text prompt_template
          = memoize 3600 now (company_name, provided_text, prompt_template)
              (analyze_text env company_name provided_text prompt_template)"
    "fetch_news_cached env now company_name from_date to_date max_articles queries
            allowed_domains
          = memoize 3600 now
              (company_name, from_date, to_date, max_articles, queries, allowed_domains)
              (fetch_news env company_name from_date to_date max_articles queries
                 allowed_domains)"
    by (simp_all add: analyze_text_cached_def fetch_news_cached_def)
  from first within after ops show ?thesis by blast
qed

text \<open>
  An instance: the same classification is asked for at the second 100 and again at the
  second 3699; the text-generation service has received one prompt.
\<close>

theorem memoize_ttl_3600_witness:
  "chat_log (snd (snd (analyze_text_cached
       (example_env (\<lambda>k. Inr None) (\<lambda>k. Inr (Some ''High Opportunity''))) 3699
       ''Acme'' ''Acme hires'' provided_text_only
       (snd (analyze_text_cached
          (example_env (\<lambda>k. Inr None) (\<lambda>k. Inr (Some ''High Opportunity''))) 100
          ''Acme'' ''Acme hires'' provided_text_only (empty_cache, empty_world))))))
   = [''Acme hires'']"
proof -
  let ?env = "example_env (\<lambda>k. Inr None) (\<lambda>k. Inr (Some ''High Opportunity'')) :: unit env"
  let ?key = "(''Acme'', ''Acme hires'', provided_text_only)"
  let ?compute = "analyze_text ?env ''Acme'' ''Acme hires'' provided_text_only"
  obtain v1 cache1 w1 where
    first: "memoize 3600 100 ?key ?compute (empty_cache, empty_world) = (v1, cache1, w1)"
    by (cases "memoize 3600 100 ?key ?compute (empty_cache, empty_world)") blast
  obtain v2 cache2 w2 where
    second: "memoize 3600 3699 ?key ?compute (cache1, w1) = (v2, cache2, w2)"
    by (cases "memoize 3600 3699 ?key ?compute (cache1, w1)") blast
  have miss: "\<forall>v t0. cache_entries (empty_cache :: (string \<times> string \<times> template, string) result_cache)
      ?key = Some (v, t0) \<longrightarrow> 3600 < 100 - t0"
    by (simp add: empty_cache_def)
  have le: "(100::nat) \<le> 3699" by simp
  note T = memoize_ttl_3600 [OF miss le first second, of ?env]
  from T have "(v1, w1) = ?compute empty_world" by blast
  moreover have "?compute empty_world
      = (''High Opportunity'',
         \<lparr>search_log = [], chat_log = [''Acme hires''], notices = []\<rparr>)"
    by code_simp
  ultimately have w1: "chat_log w1 = [''Acme hires'']" by simp
  have "(3699::nat) - 100 < 3600" by simp
  with T have "w2 = w1" by blast
  with w1 first second show ?thesis
    by (simp add: analyze_text_cached_def)
qed

end
